theory Spec2Isabelle
  imports Main "HOL-Library.Sublist" "HOL-Library.AList"
begin

section \<open>Values, exceptions and the Python library\<close>

text \<open>
  The pipeline of \<^verbatim>\<open>pipelines/blend_images_pipeline.py\<close> works on JSON-like
  Python values: the request body, the collaborators' responses and the parsed traits.
  A text is a \<open>string\<close>, one \<open>char\<close> per code point (code points below 256).
  A dict is an association list in insertion order; a well-formed dict has distinct
  keys. A float is carried as the lexeme it was read from: the program never computes
  with floats, and what a float's truth value and text are is left to the library
  record below.
\<close>

datatype pyval =
    PNone
  | PBool bool
  | PInt int
  | PFloat string
  | PStr string
  | PList "pyval list"
  | PDict "(string \<times> pyval) list"

text \<open>An exception: its class name and the text \<^verbatim>\<open>str(e)\<close> gives.\<close>

datatype exn = Exn string string

type_synonym 'a result = "exn + 'a"

type_synonym bytes = "nat list"

text \<open>
  The functions of the Python library the program calls and this development does not
  fix: \<^verbatim>\<open>json.loads\<close>, \<^verbatim>\<open>json.dumps\<close> (its argument
  \<^verbatim>\<open>ensure_ascii\<close> first), \<^verbatim>\<open>str\<close> on a value that is not a
  text, the truth value of a float and \<^verbatim>\<open>base64.b64decode\<close>. Every theorem
  that is stated for a library \<open>lib\<close> holds whatever these functions do; a reference
  library \<open>cpython\<close> is defined further down for the concrete runs.
\<close>

record pylib =
  loads :: "string \<Rightarrow> pyval result"
  dumps :: "bool \<Rightarrow> pyval \<Rightarrow> string"
  str_other :: "pyval \<Rightarrow> string"
  float_truthy :: "string \<Rightarrow> bool"
  b64decode :: "string \<Rightarrow> bytes result"

definition py_str :: "pylib \<Rightarrow> pyval \<Rightarrow> string" where
  "py_str lib v = (case v of PStr s \<Rightarrow> s | _ \<Rightarrow> str_other lib v)"

section \<open>Texts\<close>

text \<open>
  \<^verbatim>\<open>str.isspace\<close> and the class \<^verbatim>\<open>\s\<close> of \<^verbatim>\<open>re\<close>,
  on code points below 256: tab to carriage return, the four separators 0x1C to 0x1F,
  space, NEL and the no-break space.
\<close>

definition is_space :: "char \<Rightarrow> bool" where
  "is_space c \<longleftrightarrow> c \<in> set [CHR 0x09, CHR 0x0A, CHR 0x0B, CHR 0x0C, CHR 0x0D,
     CHR 0x1C, CHR 0x1D, CHR 0x1E, CHR 0x1F, CHR 0x20, CHR 0x85, CHR 0xA0]"

definition lstrip :: "string \<Rightarrow> string" where
  "lstrip s = dropWhile is_space s"

definition rstrip :: "string \<Rightarrow> string" where
  "rstrip s = rev (dropWhile is_space (rev s))"

definition strip :: "string \<Rightarrow> string" where
  "strip s = rstrip (lstrip s)"

section \<open>The image-payload adapter\<close>

text \<open>
  \<^verbatim>\<open>s.split(",", 1)[-1]\<close>: the text after the first comma, and \<open>s\<close> itself
  when it has no comma.
\<close>

definition after_first_comma :: "string \<Rightarrow> string" where
  "after_first_comma s =
     (case dropWhile (\<lambda>c. c \<noteq> CHR '','') s of [] \<Rightarrow> s | _ # r \<Rightarrow> r)"

text \<open>
  \<^verbatim>\<open>_to_b64_payload\<close>:
  \<^verbatim>\<open>s = str(img_url_or_b64)\<close>, then
  \<^verbatim>\<open>if "," in s and "base64" in s[:60]: return s.split(",", 1)[-1]\<close>, else \<open>s\<close>.
\<close>

definition to_b64_payload :: "pylib \<Rightarrow> pyval \<Rightarrow> string" where
  "to_b64_payload lib img_url_or_b64 =
     (let s = py_str lib img_url_or_b64
      in if CHR '','' \<in> set s \<and> sublist ''base64'' (take 60 s)
         then after_first_comma s
         else s)"


section \<open>Python's operations on values\<close>

definition q :: string where
  "q = [CHR 0x27]"

definition type_name :: "pyval \<Rightarrow> string" where
  "type_name v = (case v of PNone \<Rightarrow> ''NoneType'' | PBool _ \<Rightarrow> ''bool'' | PInt _ \<Rightarrow> ''int''
     | PFloat _ \<Rightarrow> ''float'' | PStr _ \<Rightarrow> ''str'' | PList _ \<Rightarrow> ''list'' | PDict _ \<Rightarrow> ''dict'')"

definition attribute_error :: "pyval \<Rightarrow> string \<Rightarrow> exn" where
  "attribute_error v a =
     Exn ''AttributeError'' (q @ type_name v @ q @ '' object has no attribute '' @ q @ a @ q)"

definition key_error :: "string \<Rightarrow> exn" where
  "key_error k = Exn ''KeyError'' (q @ k @ q)"

definition type_error :: "string \<Rightarrow> exn" where
  "type_error m = Exn ''TypeError'' m"

text \<open>The truth value of a value: \<^verbatim>\<open>if v\<close>, \<^verbatim>\<open>not v\<close>, \<^verbatim>\<open>v or d\<close>.\<close>

fun truthy :: "pylib \<Rightarrow> pyval \<Rightarrow> bool" where
  "truthy lib PNone = False"
| "truthy lib (PBool b) = b"
| "truthy lib (PInt i) = (i \<noteq> 0)"
| "truthy lib (PFloat x) = float_truthy lib x"
| "truthy lib (PStr s) = (s \<noteq> [])"
| "truthy lib (PList xs) = (xs \<noteq> [])"
| "truthy lib (PDict d) = (d \<noteq> [])"

definition py_or :: "pylib \<Rightarrow> pyval \<Rightarrow> pyval \<Rightarrow> pyval" where
  "py_or lib v d = (if truthy lib v then v else d)"

text \<open>\<^verbatim>\<open>v.get(k, d)\<close>: only a dict has the method.\<close>

definition py_get :: "pyval \<Rightarrow> string \<Rightarrow> pyval \<Rightarrow> pyval result" where
  "py_get v k d =
     (case v of
        PDict m \<Rightarrow> Inr (case map_of m k of Some x \<Rightarrow> x | None \<Rightarrow> d)
      | _ \<Rightarrow> Inl (attribute_error v ''get''))"

text \<open>\<^verbatim>\<open>v[k]\<close> with a text \<open>k\<close>.\<close>

definition py_item :: "pyval \<Rightarrow> string \<Rightarrow> pyval result" where
  "py_item v k =
     (case v of
        PDict m \<Rightarrow> (case map_of m k of Some x \<Rightarrow> Inr x | None \<Rightarrow> Inl (key_error k))
      | PStr _ \<Rightarrow> Inl (type_error (''string indices must be integers, not '' @ q @ ''str'' @ q))
      | PList _ \<Rightarrow> Inl (type_error ''list indices must be integers or slices, not str'')
      | _ \<Rightarrow> Inl (type_error (q @ type_name v @ q @ '' object is not subscriptable'')))"

text \<open>\<^verbatim>\<open>k in v\<close> with a text \<open>k\<close>.\<close>

definition py_contains :: "pyval \<Rightarrow> string \<Rightarrow> bool result" where
  "py_contains v k =
     (case v of
        PDict m \<Rightarrow> Inr (k \<in> set (map fst m))
      | PStr s \<Rightarrow> Inr (sublist k s)
      | PList xs \<Rightarrow> Inr (PStr k \<in> set xs)
      | _ \<Rightarrow> Inl (type_error (''argument of type '' @ q @ type_name v @ q @ '' is not iterable'')))"

text \<open>\<^verbatim>\<open>v[-1]\<close>.\<close>

definition py_last :: "pyval \<Rightarrow> pyval result" where
  "py_last v =
     (case v of
        PList xs \<Rightarrow> (if xs = [] then Inl (Exn ''IndexError'' ''list index out of range'')
                     else Inr (last xs))
      | PStr s \<Rightarrow> (if s = [] then Inl (Exn ''IndexError'' ''string index out of range'')
                   else Inr (PStr [last s]))
      | PDict _ \<Rightarrow> Inl (Exn ''KeyError'' ''-1'')
      | _ \<Rightarrow> Inl (type_error (q @ type_name v @ q @ '' object is not subscriptable'')))"

text \<open>\<^verbatim>\<open>len(v)\<close>.\<close>

definition py_len :: "pyval \<Rightarrow> nat result" where
  "py_len v =
     (case v of
        PList xs \<Rightarrow> Inr (length xs)
      | PStr s \<Rightarrow> Inr (length s)
      | PDict m \<Rightarrow> Inr (length m)
      | _ \<Rightarrow> Inl (type_error (''object of type '' @ q @ type_name v @ q @ '' has no len()'')))"

text \<open>\<^verbatim>\<open>v.strip()\<close>: only a text has the method.\<close>

definition py_strip :: "pyval \<Rightarrow> string result" where
  "py_strip v = (case v of PStr s \<Rightarrow> Inr (strip s) | _ \<Rightarrow> Inl (attribute_error v ''strip''))"

text \<open>The values a \<^verbatim>\<open>for\<close> loop over \<open>v\<close> visits.\<close>

definition py_iter :: "pyval \<Rightarrow> pyval list result" where
  "py_iter v =
     (case v of
        PList xs \<Rightarrow> Inr xs
      | PStr s \<Rightarrow> Inr (map (\<lambda>c. PStr [c]) s)
      | PDict m \<Rightarrow> Inr (map (\<lambda>kv. PStr (fst kv)) m)
      | _ \<Rightarrow> Inl (type_error (q @ type_name v @ q @ '' object is not iterable'')))"

text \<open>
  The values a loop over \<^verbatim>\<open>v[:2]\<close> visits. A dict cannot be sliced (the text of
  the exception is that of CPython 3.11).
\<close>

definition py_first_two :: "pyval \<Rightarrow> pyval list result" where
  "py_first_two v =
     (case v of
        PList xs \<Rightarrow> Inr (take 2 xs)
      | PStr s \<Rightarrow> Inr (map (\<lambda>c. PStr [c]) (take 2 s))
      | PDict _ \<Rightarrow> Inl (type_error (''unhashable type: '' @ q @ ''slice'' @ q))
      | _ \<Rightarrow> Inl (type_error (q @ type_name v @ q @ '' object is not subscriptable'')))"

text \<open>\<^verbatim>\<open>sep.join(parts)\<close>.\<close>

fun join :: "string \<Rightarrow> string list \<Rightarrow> string" where
  "join sep [] = []"
| "join sep [p] = p"
| "join sep (p # p' # ps) = p @ sep @ join sep (p' # ps)"

text \<open>Decimal digits of a natural number, and of an integer.\<close>

definition digit :: "nat \<Rightarrow> char" where
  "digit d = ''0123456789abcdef'' ! d"

fun dec :: "nat \<Rightarrow> string" where
  "dec n = (if n < 10 then [digit n] else dec (n div 10) @ [digit (n mod 10)])"

definition dec_int :: "int \<Rightarrow> string" where
  "dec_int i = (if i < 0 then CHR ''-'' # dec (nat (- i)) else dec (nat i))"

text \<open>\<^verbatim>\<open>f"{n:02d}"\<close> for a natural number.\<close>

definition dec02 :: "nat \<Rightarrow> string" where
  "dec02 n = (if n < 10 then CHR ''0'' # dec n else dec n)"

section \<open>Extracting the instruction and the images\<close>

text \<open>
  The first loop of \<^verbatim>\<open>_extract_user_instruction_and_images\<close> over a list content:
  \<^verbatim>\<open>if item.get("type") == "text": user_instruction += item.get("text", "")\<close>.
  Adding anything but a text to a text raises.
\<close>

fun collect_text :: "string \<Rightarrow> pyval list \<Rightarrow> string result" where
  "collect_text acc [] = Inr acc"
| "collect_text acc (item # items) =
     (case py_get item ''type'' PNone of
        Inl e \<Rightarrow> Inl e
      | Inr ty \<Rightarrow>
          if ty = PStr ''text'' then
            (case py_get item ''text'' (PStr []) of
               Inl e \<Rightarrow> Inl e
             | Inr tx \<Rightarrow>
                 (case tx of
                    PStr s \<Rightarrow> collect_text (acc @ s) items
                  | _ \<Rightarrow> Inl (type_error (''can only concatenate str (not \"'' @ type_name tx
                                            @ ''\") to str''))))
          else collect_text acc items)"

text \<open>
  The second loop:
  \<^verbatim>\<open>if item.get("type") == "image_url": images.append({"url": item["image_url"]["url"]})\<close>.
\<close>

fun collect_images :: "pyval list \<Rightarrow> pyval list \<Rightarrow> pyval list result" where
  "collect_images acc [] = Inr acc"
| "collect_images acc (item # items) =
     (case py_get item ''type'' PNone of
        Inl e \<Rightarrow> Inl e
      | Inr ty \<Rightarrow>
          if ty = PStr ''image_url'' then
            (case py_item item ''image_url'' of
               Inl e \<Rightarrow> Inl e
             | Inr iu \<Rightarrow>
                 (case py_item iu ''url'' of
                    Inl e \<Rightarrow> Inl e
                  | Inr u \<Rightarrow> collect_images (acc @ [PDict [(''url'', u)]]) items))
          else collect_images acc items)"

text \<open>
  The instruction before it is stripped: the texts of a list content, and
  \<^verbatim>\<open>content or ""\<close> otherwise (any value).
\<close>

definition instruction_of :: "pylib \<Rightarrow> pyval \<Rightarrow> pyval result" where
  "instruction_of lib content =
     (case content of
        PList items \<Rightarrow> (case collect_text [] items of Inl e \<Rightarrow> Inl e | Inr s \<Rightarrow> Inr (PStr s))
      | _ \<Rightarrow> Inr (py_or lib content (PStr [])))"

text \<open>
  The images: \<^verbatim>\<open>last_msg["images"] or []\<close> when \<^verbatim>\<open>"images" in last_msg\<close>,
  else the \<^verbatim>\<open>image_url\<close> items of a list content, else none.
\<close>

definition images_of :: "pylib \<Rightarrow> pyval \<Rightarrow> pyval \<Rightarrow> pyval result" where
  "images_of lib last_msg content =
     (case py_contains last_msg ''images'' of
        Inl e \<Rightarrow> Inl e
      | Inr True \<Rightarrow>
          (case py_item last_msg ''images'' of
             Inl e \<Rightarrow> Inl e
           | Inr v \<Rightarrow> Inr (py_or lib v (PList [])))
      | Inr False \<Rightarrow>
          (case content of
             PList items \<Rightarrow>
               (case collect_images [] items of Inl e \<Rightarrow> Inl e | Inr xs \<Rightarrow> Inr (PList xs))
           | _ \<Rightarrow> Inr (PList [])))"

text \<open>
  \<^verbatim>\<open>_extract_user_instruction_and_images\<close>. The instruction is stripped last, after
  the images were collected; without messages the pair of the empty text and the empty
  list is returned at once.
\<close>

definition extract_user_instruction_and_images ::
    "pylib \<Rightarrow> pyval \<Rightarrow> (string \<times> pyval) result" where
  "extract_user_instruction_and_images lib body =
     (case py_get body ''messages'' (PList []) of
        Inl e \<Rightarrow> Inl e
      | Inr messages \<Rightarrow>
          if \<not> truthy lib messages then Inr ([], PList [])
          else
            (case py_last messages of
               Inl e \<Rightarrow> Inl e
             | Inr last_msg \<Rightarrow>
                 (case py_get last_msg ''content'' (PStr []) of
                    Inl e \<Rightarrow> Inl e
                  | Inr content \<Rightarrow>
                      (case instruction_of lib content of
                         Inl e \<Rightarrow> Inl e
                       | Inr user_instruction \<Rightarrow>
                           (case images_of lib last_msg content of
                              Inl e \<Rightarrow> Inl e
                            | Inr images \<Rightarrow>
                                (case py_strip user_instruction of
                                   Inl e \<Rightarrow> Inl e
                                 | Inr u \<Rightarrow> Inr (u, images)))))))"


section \<open>The response normalizer\<close>

definition ascii_lower :: "char \<Rightarrow> char" where
  "ascii_lower c =
     (case map_of (zip ''ABCDEFGHIJKLMNOPQRSTUVWXYZ'' ''abcdefghijklmnopqrstuvwxyz'') c of
        Some l \<Rightarrow> l | None \<Rightarrow> c)"

text \<open>
  \<^verbatim>\<open>re.sub(r"^```json\s*", "", t, flags=re.IGNORECASE)\<close>: without the flag
  \<^verbatim>\<open>MULTILINE\<close> the pattern can match at the start of the text only. Among the
  code points below 256 the letters of \<^verbatim>\<open>json\<close> match themselves and their
  capitals.
\<close>

definition remove_json_fence :: "string \<Rightarrow> string" where
  "remove_json_fence t =
     (if prefix ''```'' t \<and> map ascii_lower (take 4 (drop 3 t)) = ''json''
      then lstrip (drop 7 t) else t)"

text \<open>\<^verbatim>\<open>re.sub(r"^```\s*", "", t)\<close>.\<close>

definition remove_fence :: "string \<Rightarrow> string" where
  "remove_fence t = (if prefix ''```'' t then lstrip (drop 3 t) else t)"

text \<open>
  \<^verbatim>\<open>re.sub(r"\s*```$", "", t)\<close>: \<^verbatim>\<open>$\<close> matches at the end of the text and
  before a newline that ends it. The match is the last fence with the whitespace before
  it; a final newline after the fence stays.
\<close>

definition remove_trailing_fence :: "string \<Rightarrow> string" where
  "remove_trailing_fence t =
     (if suffix ''```'' t then rstrip (take (length t - 3) t)
      else if suffix (''```'' @ [CHR 0x0A]) t then rstrip (take (length t - 4) t) @ [CHR 0x0A]
      else t)"

text \<open>The three substitutions of \<^verbatim>\<open>_safe_json_from_text\<close>, each followed by \<^verbatim>\<open>strip()\<close>.\<close>

definition strip_fences :: "string \<Rightarrow> string" where
  "strip_fences t0 =
     (let t1 = strip (remove_json_fence t0);
          t2 = strip (remove_fence t1);
          t3 = strip (remove_trailing_fence t2)
      in t3)"

text \<open>
  \<^verbatim>\<open>re.search(r"\{.*\}", t, flags=re.DOTALL)\<close>: the leftmost match starts at the
  first opening brace and, the star being greedy, ends at the last closing brace; there
  is a match exactly when a closing brace follows the first opening brace.
\<close>

definition brace_span :: "string \<Rightarrow> string option" where
  "brace_span t =
     (let a = dropWhile (\<lambda>c. c \<noteq> CHR ''{'') t;
          b = rev (dropWhile (\<lambda>c. c \<noteq> CHR ''}'') (rev a))
      in if b = [] then None else Some b)"

text \<open>
  \<^verbatim>\<open>_safe_json_from_text\<close>. \<^verbatim>\<open>(text or "").strip()\<close> raises on a truthy value
  that is not a text; both calls of \<^verbatim>\<open>json.loads\<close> are guarded by
  \<^verbatim>\<open>except Exception: pass\<close>.
\<close>

definition safe_json_from_text :: "pylib \<Rightarrow> pyval \<Rightarrow> pyval result" where
  "safe_json_from_text lib text =
     (case py_strip (py_or lib text (PStr [])) of
        Inl e \<Rightarrow> Inl e
      | Inr t0 \<Rightarrow>
          (let t = strip_fences t0
           in case loads lib t of
                Inr v \<Rightarrow> Inr v
              | Inl _ \<Rightarrow>
                  (case brace_span t of
                     None \<Rightarrow> Inr (PDict [(''raw'', PStr t)])
                   | Some m \<Rightarrow>
                       (case loads lib m of
                          Inr v \<Rightarrow> Inr v
                        | Inl _ \<Rightarrow> Inr (PDict [(''raw'', PStr t)])))))"

section \<open>The subject classifier\<close>

text \<open>\<^verbatim>\<open>str.lower\<close> on code points below 256.\<close>

definition py_lower :: "char \<Rightarrow> char" where
  "py_lower c =
     (case map_of (zip
        [CHR 0xC0, CHR 0xC1, CHR 0xC2, CHR 0xC3, CHR 0xC4, CHR 0xC5, CHR 0xC6, CHR 0xC7,
         CHR 0xC8, CHR 0xC9, CHR 0xCA, CHR 0xCB, CHR 0xCC, CHR 0xCD, CHR 0xCE, CHR 0xCF,
         CHR 0xD0, CHR 0xD1, CHR 0xD2, CHR 0xD3, CHR 0xD4, CHR 0xD5, CHR 0xD6,
         CHR 0xD8, CHR 0xD9, CHR 0xDA, CHR 0xDB, CHR 0xDC, CHR 0xDD, CHR 0xDE]
        [CHR 0xE0, CHR 0xE1, CHR 0xE2, CHR 0xE3, CHR 0xE4, CHR 0xE5, CHR 0xE6, CHR 0xE7,
         CHR 0xE8, CHR 0xE9, CHR 0xEA, CHR 0xEB, CHR 0xEC, CHR 0xED, CHR 0xEE, CHR 0xEF,
         CHR 0xF0, CHR 0xF1, CHR 0xF2, CHR 0xF3, CHR 0xF4, CHR 0xF5, CHR 0xF6,
         CHR 0xF8, CHR 0xF9, CHR 0xFA, CHR 0xFB, CHR 0xFC, CHR 0xFD, CHR 0xFE]) c of
        Some l \<Rightarrow> l | None \<Rightarrow> ascii_lower c)"

text \<open>\<^verbatim>\<open>_detect_subject_type\<close>, on the stripped instruction (a text).\<close>

definition detect_subject_type :: "string \<Rightarrow> string" where
  "detect_subject_type user_instruction =
     (let s = map py_lower user_instruction
      in if \<exists>w \<in> set [''baby'', ''infant'', ''child'', ''kid'', ''teen'', ''adult'', ''person'',
                       ''portrait'']. sublist w s then ''a person''
         else if \<exists>w \<in> set [''dog'', ''cat'', ''pet'', ''animal'', ''horse'', ''bird'']. sublist w s
           then ''an animal''
         else if \<exists>w \<in> set [''landscape'', ''scene'', ''city'', ''interior'', ''exterior'']. sublist w s
           then ''a scene''
         else ''a subject'')"

section \<open>The trait compactor\<close>

definition keys_order :: "string list" where
  "keys_order = [''primary_subject'', ''color_palette'', ''dominant_textures'', ''scene_type'',
     ''lighting'', ''composition'', ''notable_features'', ''style'']"

text \<open>\<^verbatim>\<open>k.replace('_', ' ')\<close>.\<close>

definition spaced :: "string \<Rightarrow> string" where
  "spaced k = map (\<lambda>c. if c = CHR ''_'' then CHR '' '' else c) k"

text \<open>\<^verbatim>\<open>f"{k.replace('_',' ')}: {v}"\<close>.\<close>

definition segment :: "pylib \<Rightarrow> string \<Rightarrow> pyval \<Rightarrow> string" where
  "segment lib k v = spaced k @ '': '' @ py_str lib v"

text \<open>
  The loop over \<^verbatim>\<open>keys_order\<close>: \<^verbatim>\<open>v = traits.get(k)\<close>, and a segment is
  appended \<^verbatim>\<open>if v\<close>.
\<close>

definition parts_of :: "pylib \<Rightarrow> (string \<times> pyval) list \<Rightarrow> string list" where
  "parts_of lib d =
     concat (map (\<lambda>k. case map_of d k of
                         Some v \<Rightarrow> if truthy lib v then [segment lib k v] else []
                       | None \<Rightarrow> []) keys_order)"

text \<open>
  \<^verbatim>\<open>_traits_to_compact_line\<close>. What it returns is a text, but for the fallback form
  \<^verbatim>\<open>traits["raw"]\<close> is returned as it is, whatever value it is.
\<close>

definition traits_to_compact_line :: "pylib \<Rightarrow> pyval \<Rightarrow> pyval" where
  "traits_to_compact_line lib traits =
     (case traits of
        PDict d \<Rightarrow>
          (case (map_of d ''raw'', length d = 1) of
             (Some r, True) \<Rightarrow> r
           | _ \<Rightarrow>
               (let parts = parts_of lib d
                in if parts \<noteq> [] then PStr (join ''; '' parts)
                   else PStr (dumps lib False traits)))
      | _ \<Rightarrow> PStr (py_str lib traits))"


section \<open>Configuration, collaborators and effects\<close>

text \<open>The class \<^verbatim>\<open>Valves\<close>; \<open>default_valves\<close> holds the defaults of its fields.\<close>

record valves =
  vision_url :: string
  vision_model :: string
  gen_url :: string
  gen_model :: string
  gen_n :: int
  gen_size :: string
  gen_response_format :: string
  use_s3 :: bool
  s3_endpoint :: string
  s3_bucket :: string
  s3_access_key :: string
  s3_secret_key :: string
  s3_public_url :: string

definition default_valves :: valves where
  "default_valves = \<lparr>
     vision_url = ''http://localhost:11434'',
     vision_model = ''llama3.2-vision:latest'',
     gen_url = ''http://localhost:11434'',
     gen_model = ''x/flux2-klein:latest'',
     gen_n = 6,
     gen_size = ''1024x1024'',
     gen_response_format = ''b64_json'',
     use_s3 = False,
     s3_endpoint = [],
     s3_bucket = ''morphs'',
     s3_access_key = [],
     s3_secret_key = [],
     s3_public_url = [] \<rparr>"

text \<open>
  What a run does to the world outside, in the order it does it: a request to a
  collaborator (url, JSON payload, timeout), the steps of an upload to the object store,
  the steps of a write to the static directory.
\<close>

datatype effect =
    HttpPost string pyval nat
  | S3Client string string string
  | S3PutObject string string bytes
  | S3Presign string string
  | MakeDirs string
  | WriteFile string bytes

text \<open>
  The response of \<^verbatim>\<open>requests.post\<close>: its status, its reason phrase, and what
  \<^verbatim>\<open>.json()\<close> gives (it raises on a body that is not JSON).
\<close>

record response =
  status_code :: nat
  reason :: string
  json_body :: "pyval result"

text \<open>
  The world: what each call to the outside answers, given the effects of the run so far.
  \<open>None\<close> is a call that returns normally, \<open>Some e\<close> and \<open>Inl e\<close> one that raises.
  \<open>clock\<close> is \<^verbatim>\<open>datetime.now().strftime("%Y%m%d_%H%M%S_%f")\<close>, \<open>getenv\<close> is
  \<^verbatim>\<open>os.environ.get\<close>, \<open>import_boto3\<close> the three imports of the upload.
\<close>

record world =
  http_post :: "effect list \<Rightarrow> string \<Rightarrow> pyval \<Rightarrow> nat \<Rightarrow> response result"
  clock :: "effect list \<Rightarrow> string"
  getenv :: "string \<Rightarrow> string option"
  import_boto3 :: "effect list \<Rightarrow> exn option"
  s3_client :: "effect list \<Rightarrow> string \<Rightarrow> string \<Rightarrow> string \<Rightarrow> exn option"
  s3_put_object :: "effect list \<Rightarrow> string \<Rightarrow> string \<Rightarrow> bytes \<Rightarrow> exn option"
  s3_presign :: "effect list \<Rightarrow> string \<Rightarrow> string \<Rightarrow> string result"
  makedirs :: "effect list \<Rightarrow> string \<Rightarrow> exn option"
  write_file :: "effect list \<Rightarrow> string \<Rightarrow> bytes \<Rightarrow> exn option"

text \<open>\<^verbatim>\<open>str(e)\<close>.\<close>

definition exn_text :: "exn \<Rightarrow> string" where
  "exn_text e = (case e of Exn _ m \<Rightarrow> m)"

section \<open>Storing an image\<close>

text \<open>
  The two handlers of the upload:
  \<^verbatim>\<open>except ImportError: raise RuntimeError("boto3 not installed. ...")\<close> and
  \<^verbatim>\<open>except Exception as e: raise RuntimeError(f"S3 upload error: {str(e)}")\<close>.
\<close>

definition s3_handler :: "exn \<Rightarrow> exn" where
  "s3_handler e =
     (case e of Exn cls m \<Rightarrow>
        if cls = ''ImportError'' \<or> cls = ''ModuleNotFoundError''
        then Exn ''RuntimeError'' ''boto3 not installed. Install with: pip install boto3''
        else Exn ''RuntimeError'' (''S3 upload error: '' @ m))"

text \<open>\<^verbatim>\<open>os.path.join(a, b)\<close> of \<^verbatim>\<open>posixpath\<close>.\<close>

definition path_join :: "string \<Rightarrow> string \<Rightarrow> string" where
  "path_join a b =
     (if prefix ''/'' b then b
      else if a = [] \<or> suffix ''/'' a then a @ b
      else a @ ''/'' @ b)"

text \<open>
  \<^verbatim>\<open>_store_image_bytes\<close>, from the effects so far to the effects after it and the
  url it returns or the exception it raises.
\<close>

definition store_image_bytes ::
    "world \<Rightarrow> valves \<Rightarrow> effect list \<Rightarrow> bytes \<Rightarrow> string \<Rightarrow> effect list \<times> string result" where
  "store_image_bytes w v tr image_data filename =
     (if use_s3 v then
        (case import_boto3 w tr of
           Some e \<Rightarrow> (tr, Inl (s3_handler e))
         | None \<Rightarrow>
             (let endpoint = (if prefix ''http'' (s3_endpoint v) then s3_endpoint v
                              else ''http://'' @ s3_endpoint v);
                  tr1 = tr @ [S3Client endpoint (s3_access_key v) (s3_secret_key v)]
              in case s3_client w tr endpoint (s3_access_key v) (s3_secret_key v) of
                   Some e \<Rightarrow> (tr1, Inl (s3_handler e))
                 | None \<Rightarrow>
                     (let tr2 = tr1 @ [S3PutObject (s3_bucket v) filename image_data]
                      in case s3_put_object w tr1 (s3_bucket v) filename image_data of
                           Some e \<Rightarrow> (tr2, Inl (s3_handler e))
                         | None \<Rightarrow>
                             if s3_public_url v \<noteq> []
                             then (tr2, Inr (s3_public_url v @ ''/'' @ filename))
                             else
                               (let tr3 = tr2 @ [S3Presign (s3_bucket v) filename]
                                in case s3_presign w tr2 (s3_bucket v) filename of
                                     Inl e \<Rightarrow> (tr3, Inl (s3_handler e))
                                   | Inr u \<Rightarrow> (tr3, Inr u)))))
      else
        (let static_dir = (case getenv w ''PIPELINES_STATIC_DIR'' of
                             Some d \<Rightarrow> d | None \<Rightarrow> ''/app/static'');
             morphs_dir = path_join static_dir ''morphs'';
             tr1 = tr @ [MakeDirs morphs_dir]
         in case makedirs w tr morphs_dir of
              Some e \<Rightarrow> (tr1, Inl e)
            | None \<Rightarrow>
                (let filepath = path_join morphs_dir filename;
                     tr2 = tr1 @ [WriteFile filepath image_data]
                 in case write_file w tr1 filepath image_data of
                      Some e \<Rightarrow> (tr2, Inl e)
                    | None \<Rightarrow>
                        (let static_server_url = (case getenv w ''STATIC_SERVER_URL'' of
                                                    Some u \<Rightarrow> u | None \<Rightarrow> ''http://localhost:9099'')
                         in (tr2, Inr (static_server_url @ ''/morphs/'' @ filename))))))"


section \<open>The pipeline\<close>

text \<open>
  The run of the generator \<^verbatim>\<open>pipe\<close>, consumed to its end: the messages it has
  yielded and the effects it has had.
\<close>

record run =
  yielded :: "string list"
  trace :: "effect list"

definition emit :: "string \<Rightarrow> run \<Rightarrow> run" where
  "emit m r = r\<lparr>yielded := yielded r @ [m]\<rparr>"

definition vision_prompt :: string where
  "vision_prompt =
     ''Return ONLY valid JSON (no markdown) describing visible traits and attributes in the image.\<newline>'' @
     ''Keys: primary_subject, color_palette, dominant_textures, scene_type, lighting, composition, notable_features, style.\<newline>'' @
     ''Keep each value short (1-8 words). No opinions, avoid stylistic instructions.\<newline>\<newline>'' @
     ''Example response:\<newline>'' @
     ''{\"primary_subject\": \"cat\", \"color_palette\": \"warm browns and creams\", \"dominant_textures\": \"soft fur\", \"scene_type\": \"indoor close-up\", '' @
     ''\"lighting\": \"soft window light\", \"composition\": \"centered, tight crop\", \"notable_features\": \"one ear slightly bent\", \"style\": \"photorealistic\"}''"

definition vision_payload :: "valves \<Rightarrow> string \<Rightarrow> pyval" where
  "vision_payload v img_b64 =
     PDict [(''model'', PStr (vision_model v)),
            (''messages'', PList [PDict [(''role'', PStr ''user''),
                                         (''content'', PStr vision_prompt),
                                         (''images'', PList [PStr img_b64])]]),
            (''stream'', PBool False)]"

text \<open>
  One round of the loop of phase 1: the status message, the adapter, the request to the
  vision collaborator, \<^verbatim>\<open>(resp.get("message") or {}).get("content", "")\<close> and the
  normalizer.
\<close>

definition analyze_image ::
    "pylib \<Rightarrow> world \<Rightarrow> valves \<Rightarrow> run \<Rightarrow> nat \<Rightarrow> pyval \<Rightarrow> run \<times> pyval result" where
  "analyze_image lib w v r i img =
     (let r1 = emit (''STAGED: Analyzing image '' @ dec (i + 1) @ ''...'') r;
          img_url = (case img of
                       PDict m \<Rightarrow> (case map_of m ''url'' of Some u \<Rightarrow> u | None \<Rightarrow> PStr [])
                     | _ \<Rightarrow> img);
          img_b64 = to_b64_payload lib img_url;
          url = vision_url v @ ''/api/chat'';
          payload = vision_payload v img_b64;
          r2 = r1\<lparr>trace := trace r1 @ [HttpPost url payload 300]\<rparr>
      in case http_post w (trace r1) url payload 300 of
           Inl e \<Rightarrow> (r2, Inl e)
         | Inr http \<Rightarrow>
             (case json_body http of
                Inl e \<Rightarrow> (r2, Inl e)
              | Inr resp \<Rightarrow>
                  (case py_get resp ''message'' PNone of
                     Inl e \<Rightarrow> (r2, Inl e)
                   | Inr m \<Rightarrow>
                       (case py_get (py_or lib m (PDict [])) ''content'' (PStr []) of
                          Inl e \<Rightarrow> (r2, Inl e)
                        | Inr text \<Rightarrow> (r2, safe_json_from_text lib text)))))"

fun analyze_images ::
    "pylib \<Rightarrow> world \<Rightarrow> valves \<Rightarrow> run \<Rightarrow> nat \<Rightarrow> pyval list \<Rightarrow> pyval list
       \<Rightarrow> run \<times> pyval list result" where
  "analyze_images lib w v r i [] traits = (r, Inr traits)"
| "analyze_images lib w v r i (img # imgs) traits =
     (case analyze_image lib w v r i img of
        (r', Inl e) \<Rightarrow> (r', Inl e)
      | (r', Inr t) \<Rightarrow> analyze_images lib w v r' (Suc i) imgs (traits @ [t]))"

text \<open>Phase 2: the prompt, from the two compact lines and the instruction.\<close>

definition compose_prompt :: "pylib \<Rightarrow> pyval \<Rightarrow> pyval \<Rightarrow> string \<Rightarrow> string" where
  "compose_prompt lib p1 p2 user_instruction =
     (let morph_prompt =
        ''Photorealistic RAW image of the subject. '' @
        ''Composite of attributes from both input images.\<newline>'' @
        ''Image 1 traits: '' @ py_str lib p1 @ ''\<newline>'' @
        ''Image 2 traits: '' @ py_str lib p2 @ ''\<newline>'' @
        ''Combine colors, textures, shapes, and composition elements naturally. '' @
        ''Preserve realistic materials, proportions, and lighting appropriate to the subject and scene. '' @
        ''Neutral background unless the scene suggests otherwise, natural lighting, accurate depth of field, and subtle film grain for realism. '' @
        ''Avoid CGI, 3D renderings, illustrations, or obviously synthetic artifacts.''
      in if user_instruction \<noteq> [] \<and> length user_instruction > 2
         then morph_prompt @ ''\<newline>User preferences: '' @ user_instruction
         else morph_prompt)"

definition gen_payload :: "valves \<Rightarrow> string \<Rightarrow> pyval" where
  "gen_payload v morph_prompt =
     PDict [(''model'', PStr (gen_model v)),
            (''prompt'', PStr morph_prompt),
            (''n'', PInt (gen_n v)),
            (''size'', PStr (gen_size v)),
            (''response_format'', PStr (gen_response_format v))]"

text \<open>\<^verbatim>\<open>r.raise_for_status()\<close>: a status from 400 to 599 raises.\<close>

definition raise_for_status :: "string \<Rightarrow> response \<Rightarrow> exn option" where
  "raise_for_status url http =
     (if 400 \<le> status_code http \<and> status_code http < 500
      then Some (Exn ''HTTPError'' (dec (status_code http) @ '' Client Error: '' @ reason http
                                     @ '' for url: '' @ url))
      else if 500 \<le> status_code http \<and> status_code http < 600
      then Some (Exn ''HTTPError'' (dec (status_code http) @ '' Server Error: '' @ reason http
                                     @ '' for url: '' @ url))
      else None)"

text \<open>
  The loop of phase 4 over the candidates, \<open>idx\<close> counting from 1. A candidate without a
  truthy \<^verbatim>\<open>b64_json\<close> contributes its \<^verbatim>\<open>url\<close> if that is truthy and is
  passed over otherwise; any other candidate is decoded and stored, and an exception of
  either step leaves the loop.
\<close>

fun store_candidates ::
    "pylib \<Rightarrow> world \<Rightarrow> valves \<Rightarrow> string \<Rightarrow> nat \<Rightarrow> pyval list \<Rightarrow> effect list \<Rightarrow> pyval list
       \<Rightarrow> effect list \<times> pyval list result" where
  "store_candidates lib w v timestamp idx [] tr out_links = (tr, Inr out_links)"
| "store_candidates lib w v timestamp idx (item # items) tr out_links =
     (case py_get item ''b64_json'' PNone of
        Inl e \<Rightarrow> (tr, Inl e)
      | Inr b64 \<Rightarrow>
          if \<not> truthy lib b64 then
            (case py_get item ''url'' PNone of
               Inl e \<Rightarrow> (tr, Inl e)
             | Inr url \<Rightarrow>
                 store_candidates lib w v timestamp (Suc idx) items tr
                   (if truthy lib url then out_links @ [url] else out_links))
          else
            (case b64 of
               PStr s \<Rightarrow>
                 (case b64decode lib (filter (\<lambda>c. \<not> is_space c) s) of
                    Inl e \<Rightarrow> (tr, Inl e)
                  | Inr image_bytes \<Rightarrow>
                      (let filename = ''morph_'' @ timestamp @ ''_'' @ dec02 idx @ ''.png''
                       in case store_image_bytes w v tr image_bytes filename of
                            (tr', Inl e) \<Rightarrow> (tr', Inl e)
                          | (tr', Inr url) \<Rightarrow>
                              store_candidates lib w v timestamp (Suc idx) items tr'
                                (out_links @ [PStr url])))
             | _ \<Rightarrow> (tr, Inl (type_error (''expected string or bytes-like object, got '' @ q
                                           @ type_name b64 @ q)))))"

text \<open>The lines \<^verbatim>\<open>f"Candidate {i}:\n\n![]({url})\n"\<close>, \<open>i\<close> counting from 1.\<close>

fun candidate_lines :: "pylib \<Rightarrow> nat \<Rightarrow> pyval list \<Rightarrow> string list" where
  "candidate_lines lib i [] = []"
| "candidate_lines lib i (url # urls) =
     (''Candidate '' @ dec i @ '':\<newline>\<newline>![]('' @ py_str lib url @ '')\<newline>'')
       # candidate_lines lib (Suc i) urls"

definition gallery :: "pylib \<Rightarrow> valves \<Rightarrow> string \<Rightarrow> pyval list \<Rightarrow> string" where
  "gallery lib v morph_prompt out_links =
     join ''\<newline>''
       ([''\<newline>\<newline>### Morph Results (multiple candidates)\<newline>'',
         ''Model: `'' @ gen_model v @ ''`  \<newline>Size: `'' @ gen_size v
           @ ''`  \<newline>Count: `'' @ dec (length out_links) @ ''`\<newline>'',
         ''Prompt used (compact):\<newline>'',
         ''```text\<newline>'' @ morph_prompt @ ''\<newline>```\<newline>'']
        @ candidate_lines lib 1 out_links)"

text \<open>
  Phase 4, from the candidates of the generation response: the status message, the
  timestamp, the loop, then the storage-failure message or the gallery.
\<close>

definition storing ::
    "pylib \<Rightarrow> world \<Rightarrow> valves \<Rightarrow> string \<Rightarrow> pyval \<Rightarrow> run \<Rightarrow> run \<times> unit result" where
  "storing lib w v morph_prompt data_list r =
     (let r1 = emit ''STAGED: Saving results...'' r;
          timestamp = clock w (trace r1)
      in case py_iter data_list of
           Inl e \<Rightarrow> (r1, Inl e)
         | Inr items \<Rightarrow>
             (case store_candidates lib w v timestamp 1 items (trace r1) [] of
                (tr, Inl e) \<Rightarrow> (r1\<lparr>trace := tr\<rparr>, Inl e)
              | (tr, Inr out_links) \<Rightarrow>
                  if out_links = []
                  then (emit ''Error: Could not decode/store generated images.'' (r1\<lparr>trace := tr\<rparr>),
                        Inr ())
                  else (emit (gallery lib v morph_prompt out_links) (r1\<lparr>trace := tr\<rparr>), Inr ())))"

text \<open>Phase 3: the request to the generation collaborator, and phase 4 on its candidates.\<close>

definition generating ::
    "pylib \<Rightarrow> world \<Rightarrow> valves \<Rightarrow> string \<Rightarrow> run \<Rightarrow> run \<times> unit result" where
  "generating lib w v morph_prompt r =
     (let r1 = emit ''STAGED: Generating candidates...'' r;
          url = gen_url v @ ''/v1/images/generations'';
          payload = gen_payload v morph_prompt;
          r2 = r1\<lparr>trace := trace r1 @ [HttpPost url payload 600]\<rparr>
      in case http_post w (trace r1) url payload 600 of
           Inl e \<Rightarrow> (r2, Inl e)
         | Inr http \<Rightarrow>
             (case raise_for_status url http of
                Some e \<Rightarrow> (r2, Inl e)
              | None \<Rightarrow>
                  (case json_body http of
                     Inl e \<Rightarrow> (r2, Inl e)
                   | Inr gen_resp \<Rightarrow>
                       (case py_get gen_resp ''data'' PNone of
                          Inl e \<Rightarrow> (r2, Inl e)
                        | Inr d \<Rightarrow>
                            (let data_list = py_or lib d (PList [])
                             in if \<not> truthy lib data_list
                                then (emit (''Error: No images returned. Raw response: ''
                                            @ take 1200 (dumps lib True gen_resp)) r2, Inr ())
                                else storing lib w v morph_prompt data_list r2)))))"

text \<open>
  The body of the \<^verbatim>\<open>try\<close> statement of \<^verbatim>\<open>pipe\<close>: \<open>Inl e\<close> is an exception
  that reaches the handler, \<open>Inr ()\<close> a run that ends inside the body.
\<close>

definition pipe_try ::
    "pylib \<Rightarrow> world \<Rightarrow> valves \<Rightarrow> string \<Rightarrow> pyval \<Rightarrow> run \<Rightarrow> run \<times> unit result" where
  "pipe_try lib w v user_instruction images r =
     (case py_first_two images of
        Inl e \<Rightarrow> (r, Inl e)
      | Inr imgs \<Rightarrow>
          (case analyze_images lib w v r 0 imgs [] of
             (r1, Inl e) \<Rightarrow> (r1, Inl e)
           | (r1, Inr traits) \<Rightarrow>
               (case traits of
                  t0 # t1 # _ \<Rightarrow>
                    (let p1 = traits_to_compact_line lib t0;
                         p2 = traits_to_compact_line lib t1;
                         subject_type = detect_subject_type user_instruction;
                         morph_prompt = compose_prompt lib p1 p2 user_instruction
                     in generating lib w v morph_prompt r1)
                | _ \<Rightarrow> (r1, Inl (Exn ''IndexError'' ''list index out of range'')))))"

text \<open>
  The handler of \<^verbatim>\<open>pipe\<close>,
  \<^verbatim>\<open>except Exception as e: yield f"\nPipeline error: {str(e)}"\<close>: an exception of
  the body becomes a last message.
\<close>

definition on_exception :: "run \<times> unit result \<Rightarrow> run" where
  "on_exception x =
     (case x of
        (r, Inl e) \<Rightarrow> emit (''\<newline>Pipeline error: '' @ exn_text e) r
      | (r, Inr _) \<Rightarrow> r)"

text \<open>
  \<^verbatim>\<open>pipe\<close>. The extraction and the count of the images come before the
  \<^verbatim>\<open>try\<close> statement: an exception there leaves the generator, and is the second
  component of the result.
\<close>

definition pipe :: "pylib \<Rightarrow> world \<Rightarrow> valves \<Rightarrow> pyval \<Rightarrow> run \<times> exn option" where
  "pipe lib w v body =
     (let r0 = \<lparr>yielded = [], trace = []\<rparr>
      in case extract_user_instruction_and_images lib body of
           Inl e \<Rightarrow> (r0, Some e)
         | Inr (user_instruction, images) \<Rightarrow>
             (case py_len images of
                Inl e \<Rightarrow> (r0, Some e)
              | Inr n \<Rightarrow>
                  if n < 2 then (emit ''Please upload two images to morph.'' r0, None)
                  else (on_exception (pipe_try lib w v user_instruction images r0), None)))"

section \<open>A reference library\<close>

text \<open>
  The library \<open>cpython\<close> the concrete runs use. It follows CPython's \<^verbatim>\<open>json\<close>,
  \<^verbatim>\<open>repr\<close> and \<^verbatim>\<open>binascii\<close> on texts of code points below 256, with these
  limits: a float keeps its lexeme as its text, an escape \<^verbatim>\<open>\uXXXX\<close> from 256 on
  has no text here and is reported as an exception, the interpreter's recursion limit
  is not modelled, and the texts of the decoder's exceptions carry no position.
\<close>

definition bslash :: char where
  "bslash = CHR 0x5C"

definition dquote :: char where
  "dquote = CHR 0x22"

definition json_ws :: "char \<Rightarrow> bool" where
  "json_ws c \<longleftrightarrow> c \<in> set [CHR '' '', CHR 0x09, CHR 0x0A, CHR 0x0D]"

definition skip_ws :: "string \<Rightarrow> string" where
  "skip_ws s = dropWhile json_ws s"

definition is_digit :: "char \<Rightarrow> bool" where
  "is_digit c \<longleftrightarrow> c \<in> set ''0123456789''"

definition hex_val :: "char \<Rightarrow> nat option" where
  "hex_val c = map_of (zip ''0123456789abcdefABCDEF''
     [0, 1, 2, 3, 4, 5, 6, 7, 8, 9, 10, 11, 12, 13, 14, 15, 10, 11, 12, 13, 14, 15]) c"

definition char_of_code :: "nat \<Rightarrow> char" where
  "char_of_code n = Char (odd n) (odd (n div 2)) (odd (n div 4)) (odd (n div 8))
     (odd (n div 16)) (odd (n div 32)) (odd (n div 64)) (odd (n div 128))"

definition decode_error :: "string \<Rightarrow> exn" where
  "decode_error m = Exn ''JSONDecodeError'' m"

text \<open>The four hexadecimal digits of an escape \<^verbatim>\<open>\uXXXX\<close>.\<close>

definition decode_u4 :: "string \<Rightarrow> nat option" where
  "decode_u4 s =
     (case map hex_val (take 4 s) of
        [Some a, Some b, Some c, Some d] \<Rightarrow> Some (((a * 16 + b) * 16 + c) * 16 + d)
      | _ \<Rightarrow> None)"

definition simple_escape :: "char \<Rightarrow> char option" where
  "simple_escape c = map_of [(dquote, dquote), (bslash, bslash), (CHR ''/'', CHR ''/''),
     (CHR ''b'', CHR 0x08), (CHR ''f'', CHR 0x0C), (CHR ''n'', CHR 0x0A),
     (CHR ''r'', CHR 0x0D), (CHR ''t'', CHR 0x09)] c"

text \<open>
  The scanner of a JSON string, after its opening quote (strict mode: a control
  character ends it with an exception): the text and what follows the closing quote.
\<close>

fun scan_string :: "string \<Rightarrow> string \<Rightarrow> (string \<times> string) result" where
  "scan_string acc [] = Inl (decode_error ''Unterminated string starting at'')"
| "scan_string acc (c # cs) =
     (if c = dquote then Inr (acc, cs)
      else if c = bslash then
        (case cs of
           [] \<Rightarrow> Inl (decode_error ''Unterminated string starting at'')
         | e # cs' \<Rightarrow>
             if e = CHR ''u'' then
               (case decode_u4 cs' of
                  None \<Rightarrow> Inl (decode_error (''Invalid '' @ [bslash] @ ''uXXXX escape''))
                | Some n \<Rightarrow>
                    if n < 256 then scan_string (acc @ [char_of_code n]) (drop 4 cs')
                    else Inl (Exn ''OutOfModel'' ''code point from 256 on''))
             else
               (case simple_escape e of
                  None \<Rightarrow> Inl (decode_error (''Invalid '' @ [bslash] @ ''escape''))
                | Some x \<Rightarrow> scan_string (acc @ [x]) cs'))
      else if (of_char c :: nat) < 32 then Inl (decode_error ''Invalid control character at'')
      else scan_string (acc @ [c]) cs)"

text \<open>
  The number pattern \<^verbatim>\<open>(-?(?:0|[1-9][0-9]*))(\.[0-9]+)?([eE][-+]?[0-9]+)?\<close>: the
  integer part, the fraction, the exponent and the rest of the text.
\<close>

definition scan_frac :: "string \<Rightarrow> string \<times> string" where
  "scan_frac s =
     (case s of
        c # d # _ \<Rightarrow>
          if c = CHR ''.'' \<and> is_digit d
          then (c # takeWhile is_digit (tl s), dropWhile is_digit (tl s))
          else ([], s)
      | _ \<Rightarrow> ([], s))"

definition scan_exp :: "string \<Rightarrow> string \<times> string" where
  "scan_exp s =
     (case s of
        [] \<Rightarrow> ([], s)
      | e # r \<Rightarrow>
          if e = CHR ''e'' \<or> e = CHR ''E'' then
            (let sg = (case r of [] \<Rightarrow> [] | c # _ \<Rightarrow> if c = CHR ''+'' \<or> c = CHR ''-'' then [c] else []);
                 r1 = drop (length sg) r
             in case r1 of
                  [] \<Rightarrow> ([], s)
                | d # _ \<Rightarrow>
                    if is_digit d then (e # sg @ takeWhile is_digit r1, dropWhile is_digit r1)
                    else ([], s))
          else ([], s))"

definition scan_number :: "string \<Rightarrow> (string \<times> string \<times> string \<times> string) option" where
  "scan_number s =
     (let sg = (case s of [] \<Rightarrow> [] | c # _ \<Rightarrow> if c = CHR ''-'' then [c] else []);
          s1 = drop (length sg) s
      in case s1 of
           [] \<Rightarrow> None
         | c # cs \<Rightarrow>
             if is_digit c then
               (let ds = (if c = CHR ''0'' then [c] else c # takeWhile is_digit cs);
                    (frac, r1) = scan_frac (drop (length ds) s1);
                    (ex, r2) = scan_exp r1
                in Some (sg @ ds, frac, ex, r2))
             else None)"

text \<open>\<^verbatim>\<open>int\<close> of an integer lexeme; from 4301 digits on it raises.\<close>

definition int_of_lexeme :: "string \<Rightarrow> int result" where
  "int_of_lexeme s =
     (let ds = (if prefix ''-'' s then tl s else s);
          n = foldl (\<lambda>a c. 10 * a + (case hex_val c of Some d \<Rightarrow> d | None \<Rightarrow> 0)) 0 ds
      in if length ds > 4300
         then Inl (Exn ''ValueError'' ''Exceeds the limit (4300 digits) for integer string conversion'')
         else Inr (if prefix ''-'' s then - int n else int n))"

text \<open>
  The values without parts, in the order the scanner tries them: the three names, a
  number (an integer when it has neither fraction nor exponent), the three names of
  the floats that are no numbers.
\<close>

definition parse_atom :: "string \<Rightarrow> (pyval \<times> string) result" where
  "parse_atom s =
     (if prefix ''null'' s then Inr (PNone, drop 4 s)
      else if prefix ''true'' s then Inr (PBool True, drop 4 s)
      else if prefix ''false'' s then Inr (PBool False, drop 5 s)
      else
        (case scan_number s of
           Some (i, frac, ex, r) \<Rightarrow>
             if frac = [] \<and> ex = [] then
               (case int_of_lexeme i of Inl e \<Rightarrow> Inl e | Inr k \<Rightarrow> Inr (PInt k, r))
             else Inr (PFloat (i @ frac @ ex), r)
         | None \<Rightarrow>
             if prefix ''NaN'' s then Inr (PFloat ''NaN'', drop 3 s)
             else if prefix ''Infinity'' s then Inr (PFloat ''Infinity'', drop 8 s)
             else if prefix ''-Infinity'' s then Inr (PFloat ''-Infinity'', drop 9 s)
             else Inl (decode_error ''Expecting value'')))"

definition depth_error :: exn where
  "depth_error = Exn ''RecursionError'' ''maximum recursion depth exceeded''"

text \<open>
  The decoder, by recursion on a bound of the nesting: a value at the head of the text,
  the elements of an array after its first bracket, the members of an object from the
  quote of a key. A repeated key keeps its first place and takes the last value.
\<close>

fun parse_value :: "nat \<Rightarrow> string \<Rightarrow> (pyval \<times> string) result"
  and parse_elems :: "nat \<Rightarrow> pyval list \<Rightarrow> string \<Rightarrow> (pyval \<times> string) result"
  and parse_members :: "nat \<Rightarrow> (string \<times> pyval) list \<Rightarrow> string \<Rightarrow> (pyval \<times> string) result"
where
  "parse_value 0 s = Inl depth_error"
| "parse_value (Suc n) s =
     (case s of
        [] \<Rightarrow> Inl (decode_error ''Expecting value'')
      | c # cs \<Rightarrow>
          if c = dquote then
            (case scan_string [] cs of Inl e \<Rightarrow> Inl e | Inr (t, r) \<Rightarrow> Inr (PStr t, r))
          else if c = CHR ''{'' then
            (case skip_ws cs of
               [] \<Rightarrow> Inl (decode_error ''Expecting property name enclosed in double quotes'')
             | d # r \<Rightarrow> if d = CHR ''}'' then Inr (PDict [], r) else parse_members n [] (d # r))
          else if c = CHR ''['' then
            (case skip_ws cs of
               [] \<Rightarrow> Inl (decode_error ''Expecting value'')
             | d # r \<Rightarrow> if d = CHR '']'' then Inr (PList [], r) else parse_elems n [] (d # r))
          else parse_atom s)"
| "parse_elems 0 acc s = Inl depth_error"
| "parse_elems (Suc n) acc s =
     (case parse_value n s of
        Inl e \<Rightarrow> Inl e
      | Inr (x, r) \<Rightarrow>
          (case skip_ws r of
             [] \<Rightarrow> Inl (decode_error ''Expecting , delimiter'')
           | c # r' \<Rightarrow>
               if c = CHR '']'' then Inr (PList (acc @ [x]), r')
               else if c = CHR '','' then parse_elems n (acc @ [x]) (skip_ws r')
               else Inl (decode_error ''Expecting , delimiter'')))"
| "parse_members 0 acc s = Inl depth_error"
| "parse_members (Suc n) acc s =
     (case s of
        [] \<Rightarrow> Inl (decode_error ''Expecting property name enclosed in double quotes'')
      | c # cs \<Rightarrow>
          if c \<noteq> dquote
          then Inl (decode_error ''Expecting property name enclosed in double quotes'')
          else
            (case scan_string [] cs of
               Inl e \<Rightarrow> Inl e
             | Inr (k, r) \<Rightarrow>
                 (case skip_ws r of
                    [] \<Rightarrow> Inl (decode_error ''Expecting : delimiter'')
                  | d # r1 \<Rightarrow>
                      if d \<noteq> CHR '':'' then Inl (decode_error ''Expecting : delimiter'')
                      else
                        (case parse_value n (skip_ws r1) of
                           Inl e \<Rightarrow> Inl e
                         | Inr (x, r2) \<Rightarrow>
                             (case skip_ws r2 of
                                [] \<Rightarrow> Inl (decode_error ''Expecting , delimiter'')
                              | y # r3 \<Rightarrow>
                                  if y = CHR ''}'' then Inr (PDict (AList.update k x acc), r3)
                                  else if y = CHR '','' then
                                    parse_members n (AList.update k x acc) (skip_ws r3)
                                  else Inl (decode_error ''Expecting , delimiter''))))))"

text \<open>
  \<^verbatim>\<open>json.loads\<close>: whitespace, one value, whitespace, the end of the text. The bound
  is twice the length of the text, which the recursion never uses up (lemma
  \<open>json_loads_bound_suffices\<close>).
\<close>

definition json_loads :: "string \<Rightarrow> pyval result" where
  "json_loads s =
     (case parse_value (Suc (length s + length s)) (skip_ws s) of
        Inl e \<Rightarrow> Inl e
      | Inr (x, r) \<Rightarrow> if skip_ws r = [] then Inr x else Inl (decode_error ''Extra data''))"

text \<open>
  \<^verbatim>\<open>json.dumps\<close> with its default separators. With \<^verbatim>\<open>ensure_ascii\<close> every
  character outside the printable ASCII range is escaped, without it the control
  characters, the quote and the backslash only.
\<close>

definition hex4 :: "nat \<Rightarrow> string" where
  "hex4 n = [digit (n div 4096 mod 16), digit (n div 256 mod 16), digit (n div 16 mod 16),
             digit (n mod 16)]"

definition json_escape :: "bool \<Rightarrow> char \<Rightarrow> string" where
  "json_escape ascii c =
     (case map_of [(dquote, [bslash, dquote]), (bslash, [bslash, bslash]),
                   (CHR 0x08, [bslash, CHR ''b'']), (CHR 0x0C, [bslash, CHR ''f'']),
                   (CHR 0x0A, [bslash, CHR ''n'']), (CHR 0x0D, [bslash, CHR ''r'']),
                   (CHR 0x09, [bslash, CHR ''t''])] c of
        Some e \<Rightarrow> e
      | None \<Rightarrow>
          if (of_char c :: nat) < 32 \<or> (ascii \<and> (of_char c :: nat) > 126)
          then bslash # CHR ''u'' # hex4 (of_char c)
          else [c])"

definition json_string :: "bool \<Rightarrow> string \<Rightarrow> string" where
  "json_string ascii s = dquote # concat (map (json_escape ascii) s) @ [dquote]"

primrec json_dumps :: "bool \<Rightarrow> pyval \<Rightarrow> string" where
  "json_dumps ascii PNone = ''null''"
| "json_dumps ascii (PBool b) = (if b then ''true'' else ''false'')"
| "json_dumps ascii (PInt i) = dec_int i"
| "json_dumps ascii (PFloat x) = x"
| "json_dumps ascii (PStr s) = json_string ascii s"
| "json_dumps ascii (PList xs) = ''['' @ join '', '' (map (json_dumps ascii) xs) @ '']''"
| "json_dumps ascii (PDict d) =
     ''{'' @ join '', '' (map (\<lambda>kv. json_string ascii (fst kv) @ '': '' @ snd kv)
                              (map (map_prod id (json_dumps ascii)) d)) @ ''}''"

text \<open>\<^verbatim>\<open>repr\<close>, which is what \<^verbatim>\<open>str\<close> gives on a value that is not a text.\<close>

definition hex2 :: "nat \<Rightarrow> string" where
  "hex2 n = [digit (n div 16 mod 16), digit (n mod 16)]"

definition repr_char :: "char \<Rightarrow> char \<Rightarrow> string" where
  "repr_char qc c =
     (let n = (of_char c :: nat)
      in if c = qc \<or> c = bslash then [bslash, c]
         else if c = CHR 0x09 then [bslash, CHR ''t'']
         else if c = CHR 0x0A then [bslash, CHR ''n'']
         else if c = CHR 0x0D then [bslash, CHR ''r'']
         else if n < 32 \<or> n = 127 \<or> (128 \<le> n \<and> n \<le> 160) \<or> n = 173
         then bslash # CHR ''x'' # hex2 n
         else [c])"

definition repr_str :: "string \<Rightarrow> string" where
  "repr_str s =
     (let qc = (if CHR 0x27 \<in> set s \<and> dquote \<notin> set s then dquote else CHR 0x27)
      in qc # concat (map (repr_char qc) s) @ [qc])"

primrec py_repr :: "pyval \<Rightarrow> string" where
  "py_repr PNone = ''None''"
| "py_repr (PBool b) = (if b then ''True'' else ''False'')"
| "py_repr (PInt i) = dec_int i"
| "py_repr (PFloat x) =
     (if x = ''NaN'' then ''nan'' else if x = ''Infinity'' then ''inf''
      else if x = ''-Infinity'' then ''-inf'' else x)"
| "py_repr (PStr s) = repr_str s"
| "py_repr (PList xs) = ''['' @ join '', '' (map py_repr xs) @ '']''"
| "py_repr (PDict d) =
     ''{'' @ join '', '' (map (\<lambda>kv. repr_str (fst kv) @ '': '' @ snd kv)
                              (map (map_prod id py_repr) d)) @ ''}''"

text \<open>
  The truth value of a float, by its lexeme: a digit other than 0 before the exponent,
  or one of the three names (a lexeme so small that it is read as zero is not
  recognised).
\<close>

definition float_nonzero :: "string \<Rightarrow> bool" where
  "float_nonzero x \<longleftrightarrow>
     x \<in> set [''NaN'', ''Infinity'', ''-Infinity'']
     \<or> (\<exists>c \<in> set (takeWhile (\<lambda>c. c \<noteq> CHR ''e'' \<and> c \<noteq> CHR ''E'') x). c \<in> set ''123456789'')"

text \<open>
  \<^verbatim>\<open>base64.b64decode(s)\<close> without validation: a text with a character from 128 on
  raises; then, as \<^verbatim>\<open>binascii.a2b_base64\<close> does, the characters outside the
  alphabet are passed over, each group of four gives three bytes, a complete padding
  ends the decoding and an incomplete group raises. The state is the position in the
  group, the bits left over, the count of padding characters and the bytes so far.
\<close>

definition b64_index :: "char \<Rightarrow> nat option" where
  "b64_index c =
     map_of (zip ''ABCDEFGHIJKLMNOPQRSTUVWXYZabcdefghijklmnopqrstuvwxyz0123456789+/''
                 [0 ..< 64]) c"

fun a2b_base64 :: "nat \<Rightarrow> nat \<Rightarrow> nat \<Rightarrow> bytes \<Rightarrow> string \<Rightarrow> bytes result" where
  "a2b_base64 quad_pos leftchar pads out [] =
     (if quad_pos = 0 then Inr out
      else if quad_pos = 1
      then Inl (Exn ''binascii.Error''
             (''Invalid base64-encoded string: number of data characters (''
               @ dec (length out div 3 * 4 + 1) @ '') cannot be 1 more than a multiple of 4''))
      else Inl (Exn ''binascii.Error'' ''Incorrect padding''))"
| "a2b_base64 quad_pos leftchar pads out (c # cs) =
     (if c = CHR ''='' then
        (if quad_pos \<ge> 2 \<and> quad_pos + (pads + 1) \<ge> 4 then Inr out
         else a2b_base64 quad_pos leftchar (if quad_pos \<ge> 2 then pads + 1 else pads) out cs)
      else
        (case b64_index c of
           None \<Rightarrow> a2b_base64 quad_pos leftchar pads out cs
         | Some x \<Rightarrow>
             if quad_pos = 0 then a2b_base64 1 x 0 out cs
             else if quad_pos = 1
             then a2b_base64 2 (x mod 16) 0 (out @ [leftchar * 4 + x div 16]) cs
             else if quad_pos = 2
             then a2b_base64 3 (x mod 4) 0 (out @ [leftchar * 16 + x div 4]) cs
             else a2b_base64 0 0 0 (out @ [leftchar * 64 + x]) cs))"

definition py_b64decode :: "string \<Rightarrow> bytes result" where
  "py_b64decode s =
     (if \<exists>c \<in> set s. (of_char c :: nat) > 127
      then Inl (Exn ''ValueError'' ''string argument should contain only ASCII characters'')
      else a2b_base64 0 0 0 [] s)"

definition cpython :: pylib where
  "cpython = \<lparr> loads = json_loads, dumps = json_dumps, str_other = py_repr,
               float_truthy = float_nonzero, b64decode = py_b64decode \<rparr>"


section \<open>The vocabulary of the statements\<close>

text \<open>A text of whitespace only.\<close>

definition all_space :: "string \<Rightarrow> bool" where
  "all_space w \<longleftrightarrow> list_all is_space w"

text \<open>
  A text wrapped in a markdown fenced block: the opening fence with its tag, the text
  and the closing fence, with whitespace (the line breaks) between them.
\<close>

definition fenced :: "string \<Rightarrow> string \<Rightarrow> string \<Rightarrow> string \<Rightarrow> string" where
  "fenced tag w1 t w2 = ''```'' @ tag @ w1 @ t @ w2 @ ''```''"

text \<open>
  The shape of a JSON object text: trimmed, it runs from an opening brace to a closing
  brace.
\<close>

definition braced :: "string \<Rightarrow> bool" where
  "braced t \<longleftrightarrow>
     (case strip t of [] \<Rightarrow> False | c # cs \<Rightarrow> c = CHR ''{'' \<and> last (c # cs) = CHR ''}'')"



text \<open>
  A TraitSet as the specification words it: a mapping whose keys are among the eight of
  the vocabulary, or whose only key is \<^verbatim>\<open>raw\<close>.
\<close>

definition is_traitset :: "pyval \<Rightarrow> bool" where
  "is_traitset x \<longleftrightarrow>
     (case x of
        PDict d \<Rightarrow> list_all (\<lambda>k. k \<in> set keys_order) (map fst d) \<or> map fst d = [''raw'']
      | _ \<Rightarrow> False)"

text \<open>The fallback form: \<^verbatim>\<open>"raw" in traits and len(traits) == 1\<close>.\<close>

definition is_fallback :: "(string \<times> pyval) list \<Rightarrow> bool" where
  "is_fallback d \<longleftrightarrow> map_of d ''raw'' \<noteq> None \<and> length d = 1"

text \<open>
  The compact line as the specification words it: the keys of the vocabulary that are
  present with a non-empty value, in the canonical order, one segment for each, joined
  with \<^verbatim>\<open>"; "\<close>.
\<close>

definition present_keys :: "pylib \<Rightarrow> (string \<times> pyval) list \<Rightarrow> string list" where
  "present_keys lib d =
     filter (\<lambda>k. case map_of d k of Some x \<Rightarrow> truthy lib x | None \<Rightarrow> False) keys_order"

definition spec_line :: "pylib \<Rightarrow> (string \<times> pyval) list \<Rightarrow> string" where
  "spec_line lib d =
     join ''; '' (map (\<lambda>k. spaced k @ '': ''
                          @ (case map_of d k of Some x \<Rightarrow> py_str lib x | None \<Rightarrow> []))
                      (present_keys lib d))"

section \<open>Example requests and worlds\<close>

definition one_image_body :: pyval where
  "one_image_body =
     PDict [(''messages'', PList [PDict [(''role'', PStr ''user''),
        (''content'', PStr ''blend these''),
        (''images'', PList [PStr ''AAAA''])]])]"


text \<open>Two \<^verbatim>\<open>image_url\<close> items in the content, beside an empty \<^verbatim>\<open>images\<close> field.\<close>

definition shadowed_images_message :: "(string \<times> pyval) list" where
  "shadowed_images_message =
     [(''role'', PStr ''user''),
      (''content'', PList [
         PDict [(''type'', PStr ''text''), (''text'', PStr '' blend these '')],
         PDict [(''type'', PStr ''image_url''), (''image_url'', PDict [(''url'', PStr ''AAAA'')])],
         PDict [(''type'', PStr ''image_url''), (''image_url'', PDict [(''url'', PStr ''BBBB'')])]]),
      (''images'', PList [])]"

text \<open>An \<^verbatim>\<open>image_url\<close> item without the key \<^verbatim>\<open>image_url\<close>.\<close>

definition malformed_item_body :: pyval where
  "malformed_item_body =
     PDict [(''messages'', PList [PDict [(''role'', PStr ''user''),
        (''content'', PList [PDict [(''type'', PStr ''image_url'')]])]])]"

text \<open>An \<^verbatim>\<open>images\<close> field that is a number.\<close>

definition uncountable_images_body :: pyval where
  "uncountable_images_body =
     PDict [(''messages'', PList [PDict [(''role'', PStr ''user''),
        (''content'', PStr ''blend these''), (''images'', PInt 5)]])]"

definition vision_reply :: response where
  "vision_reply = \<lparr> status_code = 200, reason = ''OK'',
     json_body = Inr (PDict [(''message'',
        PDict [(''role'', PStr ''assistant''),
               (''content'', PStr ''{\"primary_subject\": \"cat\", \"style\": \"photo\"}'')])]) \<rparr>"

text \<open>Two candidates with an inline payload (the bytes of \<^verbatim>\<open>ABC\<close> and \<^verbatim>\<open>DEF\<close>).\<close>

definition candidate_abc :: pyval where
  "candidate_abc = PDict [(''b64_json'', PStr ''QUJD'')]"

definition candidate_def :: pyval where
  "candidate_def = PDict [(''b64_json'', PStr ''REVG'')]"


definition gen_reply :: response where
  "gen_reply = \<lparr> status_code = 200, reason = ''OK'',
     json_body = Inr (PDict [(''data'', PList [candidate_abc, candidate_def])]) \<rparr>"

text \<open>
  A world whose collaborators answer as above and whose static directory takes every
  write, and the same world with a disk that is full once the first file is written.
\<close>

definition calm_world :: world where
  "calm_world = \<lparr>
     http_post = (\<lambda>tr url payload timeout.
        if suffix ''/api/chat'' url then Inr vision_reply else Inr gen_reply),
     clock = (\<lambda>tr. ''20260206_120000_000000''),
     getenv = (\<lambda>k. None),
     import_boto3 = (\<lambda>tr. None),
     s3_client = (\<lambda>tr endpoint access secret. None),
     s3_put_object = (\<lambda>tr bucket key data. None),
     s3_presign = (\<lambda>tr bucket key. Inr (''http://s3/'' @ bucket @ ''/'' @ key)),
     makedirs = (\<lambda>tr path. None),
     write_file = (\<lambda>tr path data. None) \<rparr>"


section \<open>Properties of the image-payload adapter\<close>

lemma after_first_comma_split:
  assumes "CHR '','' \<in> set s"
  shows "\<exists>a. s = a @ CHR '','' # after_first_comma s \<and> CHR '','' \<notin> set a"
proof -
  let ?a = "takeWhile (\<lambda>c. c \<noteq> CHR '','') s"
  let ?d = "dropWhile (\<lambda>c. c \<noteq> CHR '','') s"
  from assms have "?d \<noteq> []" by (simp add: dropWhile_eq_Nil_conv)
  then obtain c r where d: "?d = c # r" by (cases ?d) auto
  have "c = CHR '',''"
    using hd_dropWhile [of "\<lambda>c. c \<noteq> CHR '',''" s] \<open>?d \<noteq> []\<close> d by simp
  moreover have "s = ?a @ ?d" by simp
  moreover have "after_first_comma s = r" by (simp add: after_first_comma_def d)
  moreover have "CHR '','' \<notin> set ?a" by (auto dest: set_takeWhileD)
  ultimately show ?thesis using d by metis
qed

text \<open>
  Claim C10. On a text \<open>s\<close> the adapter returns what follows the first comma of \<open>s\<close>
  exactly when \<open>s\<close> has a comma and \<open>base64\<close> occurs within its first 60 characters,
  and returns \<open>s\<close> itself otherwise. The adapter is a total function of the text: no
  step of it can raise.
\<close>

theorem to_b64_payload_on_text:
  "(CHR '','' \<in> set s \<and> sublist ''base64'' (take 60 s) \<longrightarrow>
      (\<exists>a. CHR '','' \<notin> set a \<and> s = a @ CHR '','' # to_b64_payload lib (PStr s)))
   \<and> (\<not> (CHR '','' \<in> set s \<and> sublist ''base64'' (take 60 s)) \<longrightarrow>
      to_b64_payload lib (PStr s) = s)
   \<and> ((\<exists>a. CHR '','' \<notin> set a \<and> s = a @ CHR '','' # to_b64_payload lib (PStr s))
      \<longleftrightarrow> CHR '','' \<in> set s \<and> sublist ''base64'' (take 60 s))"
proof -
  let ?c = "CHR '','' \<in> set s \<and> sublist ''base64'' (take 60 s)"
  let ?r = "to_b64_payload lib (PStr s)"
  have yes: "\<exists>a. CHR '','' \<notin> set a \<and> s = a @ CHR '','' # ?r" if ?c
  proof -
    from that have "?r = after_first_comma s"
      by (simp add: to_b64_payload_def py_str_def)
    with after_first_comma_split [of s] that show ?thesis by auto
  qed
  have no: "?r = s" if "\<not> ?c"
    using that by (auto simp: to_b64_payload_def py_str_def)
  have only: "?c" if "\<exists>a. CHR '','' \<notin> set a \<and> s = a @ CHR '','' # ?r"
  proof (rule ccontr)
    assume "\<not> ?c"
    then have "?r = s" by (rule no)
    with that obtain a where "s = a @ CHR '','' # s" by auto
    then have "length s = length (a @ CHR '','' # s)" by simp
    then show False by simp
  qed
  from yes no only show ?thesis by blast
qed


theorem to_b64_payload_on_text_witness:
  "(CHR '','' \<in> set ''data:image/png;base64,AAAA''
      \<and> sublist ''base64'' (take 60 ''data:image/png;base64,AAAA''))
   \<and> (\<exists>a. CHR '','' \<notin> set a
          \<and> ''data:image/png;base64,AAAA''
              = a @ CHR '','' # to_b64_payload cpython (PStr ''data:image/png;base64,AAAA''))
   \<and> \<not> (CHR '','' \<in> set ''AAAA'' \<and> sublist ''base64'' (take 60 ''AAAA''))
   \<and> to_b64_payload cpython (PStr ''AAAA'') = ''AAAA''"
proof -
  have h1: "CHR '','' \<in> set ''data:image/png;base64,AAAA''
      \<and> sublist ''base64'' (take 60 ''data:image/png;base64,AAAA'')"
    by code_simp
  have h2: "\<not> (CHR '','' \<in> set ''AAAA'' \<and> sublist ''base64'' (take 60 ''AAAA''))"
    by simp
  from h1 h2 to_b64_payload_on_text [of "''data:image/png;base64,AAAA''" cpython]
    to_b64_payload_on_text [of "''AAAA''" cpython]
  show ?thesis by blast
qed

section \<open>Properties of the start of the pipeline\<close>

lemma pipe_few_images:
  assumes "extract_user_instruction_and_images lib body = Inr (u, images)"
    and "py_len images = Inr n"
    and "n < 2"
  shows "pipe lib w v body
         = (\<lparr>yielded = [''Please upload two images to morph.''], trace = []\<rparr>, None)"
  using assms by (simp add: pipe_def emit_def)

text \<open>
  Once the extraction and the count of the images have returned, no exception leaves
  the generator: the handler covers everything that follows.
\<close>

lemma pipe_contained_after_extraction:
  assumes "extract_user_instruction_and_images lib body = Inr (u, images)"
    and "py_len images = Inr n"
  shows "snd (pipe lib w v body) = None"
  using assms by (simp add: pipe_def Let_def)

text \<open>
  Claim C8. When the extraction yields 0 or 1 images, the pipeline emits exactly one
  message, \<^verbatim>\<open>Please upload two images to morph.\<close>, and ends: no exception, and no
  effect at all, so neither the vision collaborator nor the generation collaborator nor
  the storage is invoked.
\<close>

theorem pipe_insufficient_input:
  assumes "extract_user_instruction_and_images lib body = Inr (u, images)"
    and "py_len images = Inr n"
    and "n = 0 \<or> n = 1"
  shows "pipe lib w v body
         = (\<lparr>yielded = [''Please upload two images to morph.''], trace = []\<rparr>, None)"
proof -
  from assms(3) have "n < 2" by auto
  with assms(1,2) show ?thesis by (rule pipe_few_images)
qed

theorem pipe_insufficient_input_witness:
  "extract_user_instruction_and_images cpython one_image_body
     = Inr (''blend these'', PList [PStr ''AAAA''])
   \<and> py_len (PList [PStr ''AAAA'']) = Inr 1
   \<and> pipe cpython calm_world default_valves one_image_body
       = (\<lparr>yielded = [''Please upload two images to morph.''], trace = []\<rparr>, None)"
proof -
  have e: "extract_user_instruction_and_images cpython one_image_body
             = Inr (''blend these'', PList [PStr ''AAAA''])"
    by code_simp
  have l: "py_len (PList [PStr ''AAAA'']) = Inr 1"
    by (simp add: py_len_def)
  have "(1::nat) = 0 \<or> (1::nat) = 1" by simp
  from pipe_insufficient_input [OF e l this] e l show ?thesis by simp
qed

lemma images_of_falsy:
  assumes "map_of m ''images'' = Some x" and "\<not> truthy lib x"
  shows "images_of lib (PDict m) content = Inr (PList [])"
proof -
  from assms(1) have "(''images'', x) \<in> set m" by (rule map_of_SomeD)
  then have "''images'' \<in> set (map fst m)" by force
  then show ?thesis using assms
    by (simp add: images_of_def py_contains_def py_item_def py_or_def)
qed

text \<open>
  Claim C9. When the latest message has the key \<^verbatim>\<open>images\<close> with a falsy value,
  the extractor returns the empty list of images and does not look at the
  \<^verbatim>\<open>image_url\<close> items of the content (whatever they are, once the instruction has
  been read), so the request ends in the insufficient-input state. The witness is a
  request with two \<^verbatim>\<open>image_url\<close> items beside an empty \<^verbatim>\<open>images\<close> field.
\<close>

theorem falsy_images_field_wins:
  assumes "map_of b ''messages'' = Some (PList (ms @ [PDict m]))"
    and "map_of m ''images'' = Some x"
    and "\<not> truthy lib x"
    and "instruction_of lib (case map_of m ''content'' of Some c \<Rightarrow> c | None \<Rightarrow> PStr [])
           = Inr ui"
    and "py_strip ui = Inr u"
  shows "extract_user_instruction_and_images lib (PDict b) = Inr (u, PList [])
         \<and> pipe lib w v (PDict b)
           = (\<lparr>yielded = [''Please upload two images to morph.''], trace = []\<rparr>, None)"
proof -
  have ex: "extract_user_instruction_and_images lib (PDict b) = Inr (u, PList [])"
    using assms images_of_falsy [OF assms(2,3)]
    by (simp add: extract_user_instruction_and_images_def py_get_def py_last_def)
  have "py_len (PList []) = Inr 0" by (simp add: py_len_def)
  from pipe_few_images [OF ex this] ex show ?thesis by simp
qed

theorem falsy_images_field_wins_witness:
  "map_of [(''messages'', PList ([] @ [PDict shadowed_images_message]))] ''messages''
     = Some (PList ([] @ [PDict shadowed_images_message]))
   \<and> map_of shadowed_images_message ''images'' = Some (PList [])
   \<and> \<not> truthy cpython (PList [])
   \<and> instruction_of cpython
        (case map_of shadowed_images_message ''content'' of Some c \<Rightarrow> c | None \<Rightarrow> PStr [])
       = Inr (PStr '' blend these '')
   \<and> py_strip (PStr '' blend these '') = Inr ''blend these''
   \<and> extract_user_instruction_and_images cpython
        (PDict [(''messages'', PList ([] @ [PDict shadowed_images_message]))])
       = Inr (''blend these'', PList [])
   \<and> pipe cpython calm_world default_valves
        (PDict [(''messages'', PList ([] @ [PDict shadowed_images_message]))])
       = (\<lparr>yielded = [''Please upload two images to morph.''], trace = []\<rparr>, None)"
proof -
  have h1: "map_of [(''messages'', PList ([] @ [PDict shadowed_images_message]))] ''messages''
              = Some (PList ([] @ [PDict shadowed_images_message]))"
    by simp
  have h2: "map_of shadowed_images_message ''images'' = Some (PList [])"
    by code_simp
  have h3: "\<not> truthy cpython (PList [])" by simp
  have h4: "instruction_of cpython
              (case map_of shadowed_images_message ''content'' of Some c \<Rightarrow> c | None \<Rightarrow> PStr [])
            = Inr (PStr '' blend these '')"
    by code_simp
  have h5: "py_strip (PStr '' blend these '') = Inr ''blend these''"
    by code_simp
  from falsy_images_field_wins [OF h1 h2 h3 h4 h5, of calm_world default_valves] h1 h2 h3 h4 h5
  show ?thesis by blast
qed

text \<open>
  Claim C1. The claim is that no exception leaves \<^verbatim>\<open>pipe\<close>, the extraction of
  the instruction and the images included. The extraction stands before the
  \<^verbatim>\<open>try\<close> statement: on a request whose content has an \<^verbatim>\<open>image_url\<close> item
  without the key \<^verbatim>\<open>image_url\<close>, the \<^verbatim>\<open>KeyError\<close> of the extraction leaves
  the generator, and no message is yielded.
\<close>

theorem pipe_raises_before_try:
  "pipe lib w v malformed_item_body
   = (\<lparr>yielded = [], trace = []\<rparr>, Some (Exn ''KeyError'' (q @ ''image_url'' @ q)))"
  by (simp add: malformed_item_body_def pipe_def extract_user_instruction_and_images_def
      py_get_def py_last_def instruction_of_def images_of_def py_contains_def py_item_def
      key_error_def)

text \<open>
  The count of the images stands before the \<^verbatim>\<open>try\<close> statement too: with an
  \<^verbatim>\<open>images\<close> field that is a number, the \<^verbatim>\<open>TypeError\<close> of
  \<^verbatim>\<open>len\<close> leaves the generator.
\<close>

lemma pipe_raises_on_uncountable_images:
  "pipe lib w v uncountable_images_body
   = (\<lparr>yielded = [], trace = []\<rparr>,
      Some (Exn ''TypeError'' (''object of type '' @ q @ ''int'' @ q @ '' has no len()'')))"
  by (simp add: uncountable_images_body_def pipe_def extract_user_instruction_and_images_def
      py_get_def py_last_def instruction_of_def images_of_def py_contains_def py_item_def
      py_or_def py_strip_def py_len_def type_error_def type_name_def strip_def lstrip_def
      rstrip_def is_space_def)

section \<open>Properties of trimming\<close>

lemma lstrip_spaces: "all_space w \<Longrightarrow> lstrip (w @ s) = lstrip s"
  by (simp add: lstrip_def all_space_def list_all_iff dropWhile_append2)

lemma rstrip_spaces: "all_space w \<Longrightarrow> rstrip (s @ w) = rstrip s"
  using dropWhile_append2 [of "rev w" is_space "rev s"]
  by (simp add: rstrip_def all_space_def list_all_iff)

lemma lstrip_id: "\<not> is_space c \<Longrightarrow> lstrip (c # s) = c # s"
  by (simp add: lstrip_def)

lemma rstrip_id: "\<not> is_space c \<Longrightarrow> rstrip (s @ [c]) = s @ [c]"
  by (simp add: rstrip_def)

lemma rstrip_id': "s \<noteq> [] \<Longrightarrow> \<not> is_space (last s) \<Longrightarrow> rstrip s = s"
  using rstrip_id [of "last s" "butlast s"] by simp

lemma strip_id: "s \<noteq> [] \<Longrightarrow> \<not> is_space (hd s) \<Longrightarrow> \<not> is_space (last s) \<Longrightarrow> strip s = s"
  by (cases s) (simp_all add: strip_def lstrip_id rstrip_id')

lemma lstrip_decomp: "\<exists>a. all_space a \<and> s = a @ lstrip s"
  by (rule exI [of _ "takeWhile is_space s"])
     (auto simp: lstrip_def all_space_def list_all_iff dest: set_takeWhileD)

lemma rstrip_decomp: "\<exists>b. all_space b \<and> s = rstrip s @ b"
proof -
  let ?b = "rev (takeWhile is_space (rev s))"
  have "rstrip s @ ?b = rev (takeWhile is_space (rev s) @ dropWhile is_space (rev s))"
    unfolding rstrip_def by (simp only: rev_append)
  also have "\<dots> = s" by (simp only: takeWhile_dropWhile_id rev_rev_ident)
  finally have "s = rstrip s @ ?b" by simp
  moreover have "all_space ?b"
    by (auto simp: all_space_def list_all_iff dest: set_takeWhileD)
  ultimately show ?thesis by blast
qed

lemma strip_decomp: "\<exists>a b. all_space a \<and> all_space b \<and> s = a @ strip s @ b"
proof -
  obtain a where a: "all_space a" "s = a @ lstrip s" using lstrip_decomp by blast
  obtain b where b: "all_space b" "lstrip s = rstrip (lstrip s) @ b"
    using rstrip_decomp by blast
  from a b have "s = a @ strip s @ b" by (simp add: strip_def)
  with a b show ?thesis by blast
qed

lemma lstrip_head: "lstrip s = c # cs \<Longrightarrow> \<not> is_space c"
  unfolding lstrip_def using hd_dropWhile [of is_space s] by force

lemma rstrip_last: "rstrip s \<noteq> [] \<Longrightarrow> \<not> is_space (last (rstrip s))"
proof -
  assume "rstrip s \<noteq> []"
  then have ne: "dropWhile is_space (rev s) \<noteq> []" by (simp add: rstrip_def)
  then have "\<not> is_space (hd (dropWhile is_space (rev s)))" by (rule hd_dropWhile)
  moreover have "last (rstrip s) = hd (dropWhile is_space (rev s))"
    using ne by (simp add: rstrip_def last_rev)
  ultimately show ?thesis by simp
qed

lemma rstrip_keeps_head: "\<not> is_space c \<Longrightarrow> \<exists>cs'. rstrip (c # cs) = c # cs'"
proof -
  assume c: "\<not> is_space c"
  have "dropWhile is_space (rev cs @ [c]) \<noteq> []" using c by (simp add: dropWhile_append)
  obtain b where b: "all_space b" "c # cs = rstrip (c # cs) @ b" using rstrip_decomp by blast
  show ?thesis
  proof (cases "rstrip (c # cs)")
    case Nil
    with b have "c # cs = b" by simp
    with b(1) c show ?thesis by (auto simp: all_space_def)
  next
    case (Cons x xs)
    with b show ?thesis by (cases b) auto
  qed
qed

lemma strip_ends:
  assumes "strip s \<noteq> []"
  shows "\<not> is_space (hd (strip s)) \<and> \<not> is_space (last (strip s))"
proof -
  from assms obtain c cs where l: "lstrip s = c # cs"
    by (cases "lstrip s") (auto simp: strip_def rstrip_def)
  then have c: "\<not> is_space c" by (rule lstrip_head)
  then obtain cs' where r: "rstrip (c # cs) = c # cs'" using rstrip_keeps_head by blast
  have "\<not> is_space (last (rstrip (lstrip s)))"
    using assms by (intro rstrip_last) (simp add: strip_def)
  with c l r show ?thesis by (simp add: strip_def)
qed

lemma strip_idem: "strip (strip s) = strip s"
proof (cases "strip s = []")
  case True
  have "strip [] = []" by (simp add: strip_def lstrip_def rstrip_def)
  with True show ?thesis by simp
next
  case False
  with strip_ends [OF False] show ?thesis by (simp add: strip_id)
qed

section \<open>Properties of the reference decoder\<close>

text \<open>
  What the reference decoder reads is a proper prefix of the text, a text it reads as an
  object runs, trimmed, from an opening brace to a closing brace, and the bound of its
  recursion is never used up.
\<close>

lemma skip_ws_suffix: "suffix (skip_ws s) s"
  by (simp add: skip_ws_def suffix_dropWhile)

lemma skip_ws_length: "length (skip_ws s) \<le> length s"
  using skip_ws_suffix by (rule suffix_length_le)

lemma skip_ws_Cons_length: "skip_ws s = c # r \<Longrightarrow> length r < length s"
  using skip_ws_length [of s] by simp

lemma skip_ws_decomp: "\<exists>a. list_all json_ws a \<and> s = a @ skip_ws s"
  by (rule exI [of _ "takeWhile json_ws s"])
     (auto simp: skip_ws_def list_all_iff dest: set_takeWhileD)

lemma scan_string_suffix:
  "scan_string acc s = Inr (t, r) \<Longrightarrow> suffix r s \<and> length r < length s"
proof (induction acc s rule: scan_string.induct)
  case (1 acc)
  then show ?case by simp
next
  case (2 acc c cs)
  show ?case
  proof (cases "c = dquote")
    case True
    with "2.prems" show ?thesis by (simp add: suffix_ConsI)
  next
    case nq: False
    show ?thesis
    proof (cases "c = bslash")
      case True
      with nq "2.prems" obtain e cs' where cs: "cs = e # cs'" by (cases cs) auto
      show ?thesis
      proof (cases "e = CHR ''u''")
        case u: True
        with nq True cs "2.prems" obtain k where k: "decode_u4 cs' = Some k" "k < 256"
          by (auto split: option.splits if_splits)
        with nq True cs u "2.prems"
        have "scan_string (acc @ [char_of_code k]) (drop 4 cs') = Inr (t, r)"
          by simp
        with "2.IH"(1) [OF nq True cs u k(1) k(2)]
        have a: "suffix r (drop 4 cs')" and b: "length r < length (drop 4 cs')" by simp_all
        from a suffix_drop [of 4 cs'] have "suffix r cs'" by (rule suffix_order.trans)
        then show ?thesis using cs b by (simp add: suffix_ConsI)
      next
        case nu: False
        with nq True cs "2.prems" obtain x where x: "simple_escape e = Some x"
          by (auto split: option.splits)
        with nq True cs nu "2.prems" have "scan_string (acc @ [x]) cs' = Inr (t, r)" by simp
        with "2.IH"(2) [OF nq True cs nu x] have "suffix r cs'" "length r < length cs'"
          by simp_all
        then show ?thesis using cs by (simp add: suffix_ConsI)
      qed
    next
      case False
      with nq "2.prems" have lt: "\<not> (of_char c :: nat) < 32"
        and rec: "scan_string (acc @ [c]) cs = Inr (t, r)"
        by (auto split: if_splits)
      with "2.IH"(3) [OF nq False lt] have "suffix r cs" "length r < length cs" by simp_all
      then show ?thesis by (simp add: suffix_ConsI)
    qed
  qed
qed

lemma scan_frac_suffix: "scan_frac s = (f, r) \<Longrightarrow> suffix r s"
  by (auto simp: scan_frac_def split: list.splits if_splits
      intro!: suffix_ConsI suffix_dropWhile)

lemma scan_exp_suffix: "scan_exp s = (e, r) \<Longrightarrow> suffix r s"
  by (auto simp: scan_exp_def Let_def split: list.splits if_splits
      intro!: suffix_ConsI suffix_dropWhile)

lemma scan_number_suffix:
  assumes "scan_number s = Some (i, f, e, r)"
  shows "suffix r s \<and> length r < length s"
proof -
  define sg where "sg = (case s of [] \<Rightarrow> [] | c # _ \<Rightarrow> if c = CHR ''-'' then [c] else [])"
  define s1 where "s1 = drop (length sg) s"
  have unf: "scan_number s =
     (case s1 of
        [] \<Rightarrow> None
      | c # cs \<Rightarrow>
          if is_digit c then
            (let ds = (if c = CHR ''0'' then [c] else c # takeWhile is_digit cs);
                 (frac, r1) = scan_frac (drop (length ds) s1);
                 (ex, r2) = scan_exp r1
             in Some (sg @ ds, frac, ex, r2))
          else None)"
    unfolding scan_number_def sg_def s1_def Let_def by (rule refl)
  from assms obtain c cs where s1: "s1 = c # cs" and d: "is_digit c"
    unfolding unf by (auto split: list.splits if_splits)
  define ds where "ds = (if c = CHR ''0'' then [c] else c # takeWhile is_digit cs)"
  obtain fr r1 where fr: "scan_frac (drop (length ds) s1) = (fr, r1)"
    by (cases "scan_frac (drop (length ds) s1)") auto
  obtain ex r2 where ex: "scan_exp r1 = (ex, r2)"
    by (cases "scan_exp r1") auto
  from assms have r: "r = r2"
    unfolding unf using s1 d fr ex by (simp add: Let_def ds_def)
  have a: "suffix r1 (drop (length ds) s1)" using fr by (rule scan_frac_suffix)
  have b: "suffix r2 r1" using ex by (rule scan_exp_suffix)
  have c: "suffix (drop (length ds) s1) s1" by (rule suffix_drop)
  have e: "suffix s1 s" unfolding s1_def by (rule suffix_drop)
  from b a have "suffix r2 (drop (length ds) s1)" by (rule suffix_order.trans)
  then have f: "suffix r2 s1" using c by (rule suffix_order.trans)
  then have g: "suffix r2 s" using e by (rule suffix_order.trans)
  have "0 < length ds" by (simp add: ds_def)
  then have "length (drop (length ds) s1) < length s1" using s1 by simp
  moreover have "length r2 \<le> length (drop (length ds) s1)"
    using \<open>suffix r2 (drop (length ds) s1)\<close> by (rule suffix_length_le)
  moreover have "length s1 \<le> length s" using e by (rule suffix_length_le)
  ultimately have "length r2 < length s" by simp
  with g r show ?thesis by simp
qed

lemma prefix_drop_shorter: "prefix (c # p) s \<Longrightarrow> length (drop (Suc k) s) < length s"
  by (cases s) auto

lemma parse_atom_shape:
  assumes "parse_atom s = Inr (v, r)"
  shows "suffix r s \<and> length r < length s \<and> (\<forall>d. v \<noteq> PDict d)"
proof -
  from assms have
    "(\<exists>k c p. r = drop (Suc k) s \<and> prefix (c # p) s)
     \<or> (\<exists>i f e. scan_number s = Some (i, f, e, r))"
    unfolding parse_atom_def
    by (auto split: if_splits option.splits sum.splits prod.splits
        simp: numeral_eq_Suc)
  then have "suffix r s \<and> length r < length s"
  proof (elim disjE exE conjE)
    fix k c p
    assume "r = drop (Suc k) s" and "prefix (c # p) s"
    then show ?thesis using suffix_drop [of "Suc k" s] prefix_drop_shorter [of c p s k] by simp
  next
    fix i f e
    assume "scan_number s = Some (i, f, e, r)"
    then show ?thesis by (rule scan_number_suffix)
  qed
  moreover from assms have "\<forall>d. v \<noteq> PDict d"
    unfolding parse_atom_def
    by (auto split: if_splits option.splits sum.splits prod.splits)
  ultimately show ?thesis by simp
qed

lemma suffix_after: "s = mid @ c # r \<Longrightarrow> suffix r s"
  by (metis append.assoc append_Cons append_Nil suffixI)

lemma parse_value_step:
  assumes IHe: "\<And>acc s v r. parse_elems n acc s = Inr (v, r)
                  \<Longrightarrow> suffix r s \<and> (\<exists>xs. v = PList xs)"
    and IHm: "\<And>acc s v r. parse_members n acc s = Inr (v, r)
                  \<Longrightarrow> (\<exists>d. v = PDict d) \<and> (\<exists>mid. s = mid @ CHR ''}'' # r)"
    and pv: "parse_value (Suc n) s = Inr (v, r)"
  shows "suffix r s \<and> length r < length s
         \<and> (\<forall>d. v = PDict d \<longrightarrow> (\<exists>mid. s = CHR ''{'' # mid @ CHR ''}'' # r))"
proof -
  from pv obtain c cs where s: "s = c # cs" by (cases s) auto
  show ?thesis
  proof (cases "c = dquote")
    case True
    with pv s obtain t where "scan_string [] cs = Inr (t, r)" "v = PStr t"
      by (auto split: sum.splits)
    then show ?thesis using s scan_string_suffix [of "[]" cs t r] by (simp add: suffix_ConsI)
  next
    case nq: False
    show ?thesis
    proof (cases "c = CHR ''{''")
      case True
      with pv s nq obtain d r0 where sk: "skip_ws cs = d # r0"
        by (cases "skip_ws cs") auto
      obtain a where a: "cs = a @ skip_ws cs" using skip_ws_decomp by blast
      show ?thesis
      proof (cases "d = CHR ''}''")
        case cl: True
        with pv s nq True sk have "v = PDict []" "r = r0" by auto
        with a sk cl s True have "s = CHR ''{'' # a @ CHR ''}'' # r" by simp
        then show ?thesis using suffix_after [of s "CHR ''{'' # a" "CHR ''}''" r] by auto
      next
        case False
        with pv s nq True sk have "parse_members n [] (d # r0) = Inr (v, r)" by auto
        from IHm [OF this] obtain mid where "d # r0 = mid @ CHR ''}'' # r" by blast
        with a sk s True have "s = CHR ''{'' # (a @ mid) @ CHR ''}'' # r" by simp
        then show ?thesis
          using suffix_after [of s "CHR ''{'' # a @ mid" "CHR ''}''" r] by auto
      qed
    next
      case no: False
      show ?thesis
      proof (cases "c = CHR ''[''")
        case True
        with pv s nq no obtain d r0 where sk: "skip_ws cs = d # r0"
          by (cases "skip_ws cs") auto
        have sfc: "suffix (d # r0) cs"
          using skip_ws_suffix [of cs] sk by simp
        then have len: "length (d # r0) \<le> length cs" by (rule suffix_length_le)
        from sfc have sf: "suffix (d # r0) s" using s by (simp add: suffix_ConsI)
        show ?thesis
        proof (cases "d = CHR '']''")
          case cl: True
          with pv s nq no True sk have "v = PList []" "r = r0" by auto
          then show ?thesis using sf suffix_ConsD len s by auto
        next
          case False
          with pv s nq no True sk have "parse_elems n [] (d # r0) = Inr (v, r)" by auto
          from IHe [OF this] have x: "suffix r (d # r0)" and y: "\<exists>xs. v = PList xs" by auto
          from x sf have "suffix r s" by (rule suffix_order.trans)
          moreover from x have "length r \<le> length (d # r0)" by (rule suffix_length_le)
          ultimately show ?thesis using y len s by auto
        qed
      next
        case na: False
        with pv s nq no have "parse_atom s = Inr (v, r)" by simp
        then show ?thesis using parse_atom_shape by blast
      qed
    qed
  qed
qed

lemma parse_elems_step:
  assumes IHv: "\<And>s v r. parse_value n s = Inr (v, r) \<Longrightarrow> suffix r s"
    and IHe: "\<And>acc s v r. parse_elems n acc s = Inr (v, r)
                  \<Longrightarrow> suffix r s \<and> (\<exists>xs. v = PList xs)"
    and pe: "parse_elems (Suc n) acc s = Inr (v, r)"
  shows "suffix r s \<and> (\<exists>xs. v = PList xs)"
proof -
  from pe obtain x r1 where pv: "parse_value n s = Inr (x, r1)"
    by (auto split: sum.splits)
  from pe pv obtain c r2 where sk: "skip_ws r1 = c # r2"
    by (cases "skip_ws r1") auto
  have "suffix (skip_ws r1) s"
    using skip_ws_suffix [of r1] IHv [OF pv] by (rule suffix_order.trans)
  with sk have sf: "suffix (c # r2) s" by simp
  show ?thesis
  proof (cases "c = CHR '']''")
    case True
    with pe pv sk have "v = PList (acc @ [x])" "r = r2" by auto
    then show ?thesis using sf suffix_ConsD by auto
  next
    case False
    with pe pv sk have "parse_elems n (acc @ [x]) (skip_ws r2) = Inr (v, r)"
      by (auto split: if_splits)
    from IHe [OF this] have a: "suffix r (skip_ws r2)" and b: "\<exists>xs. v = PList xs" by auto
    have "suffix r2 (c # r2)" by (simp add: suffix_ConsI)
    then have "suffix r2 s" using sf by (rule suffix_order.trans)
    with skip_ws_suffix [of r2] have "suffix (skip_ws r2) s" by (rule suffix_order.trans)
    with a have "suffix r s" by (rule suffix_order.trans)
    with b show ?thesis by simp
  qed
qed

lemma parse_members_step:
  assumes IHv: "\<And>s v r. parse_value n s = Inr (v, r) \<Longrightarrow> suffix r s"
    and IHm: "\<And>acc s v r. parse_members n acc s = Inr (v, r)
                  \<Longrightarrow> (\<exists>d. v = PDict d) \<and> (\<exists>mid. s = mid @ CHR ''}'' # r)"
    and pm: "parse_members (Suc n) acc s = Inr (v, r)"
  shows "(\<exists>d. v = PDict d) \<and> (\<exists>mid. s = mid @ CHR ''}'' # r)"
proof -
  from pm obtain c cs where s: "s = c # cs" and c: "c = dquote"
    by (cases s) (auto split: if_splits)
  from pm s c obtain k r0 where ss: "scan_string [] cs = Inr (k, r0)"
    by (auto split: sum.splits)
  from pm s c ss obtain d r1 where sk: "skip_ws r0 = d # r1" and d: "d = CHR '':''"
    by (cases "skip_ws r0") (auto split: if_splits)
  from pm s c ss sk d obtain x r2 where pv: "parse_value n (skip_ws r1) = Inr (x, r2)"
    by (auto split: sum.splits)
  from pm s c ss sk d pv obtain y r3 where sk2: "skip_ws r2 = y # r3"
    by (cases "skip_ws r2") auto
  have "suffix r0 cs" using scan_string_suffix [OF ss] by simp
  then have "suffix r0 s" using s by (simp add: suffix_ConsI)
  with skip_ws_suffix [of r0] have "suffix (skip_ws r0) s" by (rule suffix_order.trans)
  then have "suffix (d # r1) s" using sk by simp
  moreover have "suffix r1 (d # r1)" by (simp add: suffix_ConsI)
  ultimately have "suffix r1 s" using suffix_order.trans by blast
  with skip_ws_suffix [of r1] have "suffix (skip_ws r1) s" by (rule suffix_order.trans)
  with IHv [OF pv] have "suffix r2 s" by (rule suffix_order.trans)
  with skip_ws_suffix [of r2] have "suffix (skip_ws r2) s" by (rule suffix_order.trans)
  then have "suffix (y # r3) s" using sk2 by simp
  then obtain p where p: "s = p @ y # r3" by (auto simp: suffix_def)
  show ?thesis
  proof (cases "y = CHR ''}''")
    case True
    with pm s c ss sk d pv sk2 have "v = PDict (AList.update k x acc)" "r = r3" by auto
    with p True show ?thesis by auto
  next
    case False
    with pm s c ss sk d pv sk2
    have "parse_members n (AList.update k x acc) (skip_ws r3) = Inr (v, r)"
      by (auto split: if_splits)
    from IHm [OF this] obtain mid where dd: "\<exists>d. v = PDict d"
      and mid: "skip_ws r3 = mid @ CHR ''}'' # r" by blast
    obtain a where "r3 = a @ skip_ws r3" using skip_ws_decomp by blast
    with p mid have "s = (p @ y # a @ mid) @ CHR ''}'' # r" by simp
    with dd show ?thesis by blast
  qed
qed

lemma parse_shape:
  "(\<forall>s v r. parse_value n s = Inr (v, r) \<longrightarrow>
       suffix r s \<and> length r < length s
       \<and> (\<forall>d. v = PDict d \<longrightarrow> (\<exists>mid. s = CHR ''{'' # mid @ CHR ''}'' # r)))
   \<and> (\<forall>acc s v r. parse_elems n acc s = Inr (v, r) \<longrightarrow> suffix r s \<and> (\<exists>xs. v = PList xs))
   \<and> (\<forall>acc s v r. parse_members n acc s = Inr (v, r) \<longrightarrow>
         (\<exists>d. v = PDict d) \<and> (\<exists>mid. s = mid @ CHR ''}'' # r))"
proof (induction n)
  case 0
  show ?case by simp
next
  case (Suc n)
  have v: "suffix r s \<and> length r < length s
           \<and> (\<forall>d. v = PDict d \<longrightarrow> (\<exists>mid. s = CHR ''{'' # mid @ CHR ''}'' # r))"
    if "parse_value (Suc n) s = Inr (v, r)" for s v r
    by (rule parse_value_step [OF _ _ that]) (use Suc in blast)+
  have e: "suffix r s \<and> (\<exists>xs. v = PList xs)"
    if "parse_elems (Suc n) acc s = Inr (v, r)" for acc s v r
    by (rule parse_elems_step [OF _ _ that]) (use Suc in blast)+
  have m: "(\<exists>d. v = PDict d) \<and> (\<exists>mid. s = mid @ CHR ''}'' # r)"
    if "parse_members (Suc n) acc s = Inr (v, r)" for acc s v r
    by (rule parse_members_step [OF _ _ that]) (use Suc in blast)+
  from v e m show ?case by blast
qed

lemma parse_value_shorter: "parse_value n s = Inr (v, r) \<Longrightarrow> length r < length s"
  using parse_shape [of n] by blast

lemma json_ws_is_space: "json_ws c \<Longrightarrow> is_space c"
  by (auto simp: json_ws_def is_space_def)

lemma skip_ws_Nil: "skip_ws r = [] \<Longrightarrow> list_all json_ws r"
  by (simp add: skip_ws_def dropWhile_eq_Nil_conv list_all_iff)

lemma object_text_braced:
  assumes "json_loads t = Inr (PDict d)"
  shows "braced t"
proof -
  from assms obtain r where
    pv: "parse_value (Suc (length t + length t)) (skip_ws t) = Inr (PDict d, r)"
    and e: "skip_ws r = []"
    by (auto simp: json_loads_def split: sum.splits if_splits prod.splits)
  from parse_shape [of "Suc (length t + length t)"] pv
  obtain mid where m: "skip_ws t = CHR ''{'' # mid @ CHR ''}'' # r" by blast
  obtain a where a: "list_all json_ws a" "t = a @ skip_ws t" using skip_ws_decomp by blast
  have r: "list_all json_ws r" using e by (rule skip_ws_Nil)
  let ?core = "CHR ''{'' # mid @ [CHR ''}'']"
  have t: "t = a @ ?core @ r" using a(2) m by simp
  have sa: "all_space a" and sr: "all_space r"
    using a(1) r json_ws_is_space by (auto simp: all_space_def list_all_iff)
  have ns: "\<not> is_space (CHR ''{'')" "\<not> is_space (CHR ''}'')"
    by (simp_all add: is_space_def)
  have "lstrip t = ?core @ r"
    using t lstrip_spaces [OF sa, of "?core @ r"] lstrip_id [OF ns(1), of "mid @ CHR ''}'' # r"]
    by simp
  moreover have "rstrip (?core @ r) = rstrip ?core" by (rule rstrip_spaces [OF sr])
  moreover have "rstrip ?core = ?core"
    using rstrip_id [OF ns(2), of "CHR ''{'' # mid"] by simp
  ultimately have "strip t = ?core" by (simp add: strip_def)
  then show ?thesis by (simp add: braced_def)
qed

lemma decode_error_not_depth [simp]: "decode_error m \<noteq> depth_error"
  by (simp add: decode_error_def depth_error_def)

lemma scan_string_not_depth: "scan_string acc s \<noteq> Inl depth_error"
proof (induction acc s rule: scan_string.induct)
  case (1 acc)
  show ?case by simp
next
  case (2 acc c cs)
  show ?case
  proof (cases "c = dquote")
    case True
    then show ?thesis by simp
  next
    case nq: False
    show ?thesis
    proof (cases "c = bslash")
      case True
      show ?thesis
      proof (cases cs)
        case Nil
        with nq True show ?thesis by simp
      next
        case (Cons e cs')
        show ?thesis
        proof (cases "e = CHR ''u''")
          case u: True
          show ?thesis
          proof (cases "decode_u4 cs'")
            case None
            with nq True Cons u show ?thesis by simp
          next
            case (Some k)
            show ?thesis
            proof (cases "k < 256")
              case lt: True
              with "2.IH"(1) [OF nq True Cons u Some lt] nq True Cons u Some
              show ?thesis by simp
            next
              case False
              with nq True Cons u Some show ?thesis by (simp add: depth_error_def)
            qed
          qed
        next
          case nu: False
          show ?thesis
          proof (cases "simple_escape e")
            case None
            with nq True Cons nu show ?thesis by simp
          next
            case (Some x)
            with "2.IH"(2) [OF nq True Cons nu Some] nq True Cons nu show ?thesis by simp
          qed
        qed
      qed
    next
      case nb: False
      show ?thesis
      proof (cases "(of_char c :: nat) < 32")
        case True
        with nq nb show ?thesis by simp
      next
        case False
        with "2.IH"(3) [OF nq nb False] nq nb show ?thesis by simp
      qed
    qed
  qed
qed

lemma parse_atom_not_depth: "parse_atom s \<noteq> Inl depth_error"
  by (auto simp: parse_atom_def int_of_lexeme_def Let_def depth_error_def decode_error_def
      split: option.splits sum.splits if_splits)

lemma parse_value_fuel_step:
  assumes IHe: "\<And>acc s. 2 * length s + 1 < n \<Longrightarrow> parse_elems n acc s \<noteq> Inl depth_error"
    and IHm: "\<And>acc s. 2 * length s + 1 < n \<Longrightarrow> parse_members n acc s \<noteq> Inl depth_error"
    and len: "2 * length s < Suc n"
  shows "parse_value (Suc n) s \<noteq> Inl depth_error"
proof (cases s)
  case Nil
  then show ?thesis by simp
next
  case (Cons c cs)
  show ?thesis
  proof (cases "c = dquote")
    case True
    with Cons scan_string_not_depth [of "[]" cs] show ?thesis
      by (auto split: sum.splits)
  next
    case nq: False
    have sub: "2 * length (d # r0) + 1 < n" if "skip_ws cs = d # r0" for d r0
    proof -
      from that skip_ws_length [of cs] have "length (d # r0) \<le> length cs" by simp
      with len Cons show ?thesis by simp
    qed
    show ?thesis
    proof (cases "c = CHR ''{''")
      case True
      show ?thesis
      proof (cases "skip_ws cs")
        case Nil
        with Cons nq True show ?thesis by simp
      next
        case sk: (Cons d r0)
        with Cons nq True IHm [OF sub [OF sk], of "[]"] show ?thesis by simp
      qed
    next
      case no: False
      show ?thesis
      proof (cases "c = CHR ''[''")
        case True
        show ?thesis
        proof (cases "skip_ws cs")
          case Nil
          with Cons nq no True show ?thesis by simp
        next
          case sk: (Cons d r0)
          with Cons nq no True IHe [OF sub [OF sk], of "[]"] show ?thesis by simp
        qed
      next
        case False
        with Cons nq no parse_atom_not_depth [of s] show ?thesis by simp
      qed
    qed
  qed
qed

lemma parse_elems_fuel_step:
  assumes IHv: "\<And>s. 2 * length s < n \<Longrightarrow> parse_value n s \<noteq> Inl depth_error"
    and IHe: "\<And>acc s. 2 * length s + 1 < n \<Longrightarrow> parse_elems n acc s \<noteq> Inl depth_error"
    and len: "2 * length s + 1 < Suc n"
  shows "parse_elems (Suc n) acc s \<noteq> Inl depth_error"
proof (cases "parse_value n s")
  case (Inl e)
  with IHv [of s] len show ?thesis by auto
next
  case (Inr p)
  then obtain x r1 where pv: "parse_value n s = Inr (x, r1)" by (cases p) auto
  then have l1: "length r1 < length s" by (rule parse_value_shorter)
  show ?thesis
  proof (cases "skip_ws r1")
    case Nil
    with pv show ?thesis by simp
  next
    case (Cons c r2)
    then have "length r2 < length r1" by (rule skip_ws_Cons_length)
    with skip_ws_length [of r2] l1 len have "2 * length (skip_ws r2) + 1 < n" by simp
    from IHe [OF this] pv Cons show ?thesis by simp
  qed
qed

lemma parse_members_fuel_step:
  assumes IHv: "\<And>s. 2 * length s < n \<Longrightarrow> parse_value n s \<noteq> Inl depth_error"
    and IHm: "\<And>acc s. 2 * length s + 1 < n \<Longrightarrow> parse_members n acc s \<noteq> Inl depth_error"
    and len: "2 * length s + 1 < Suc n"
  shows "parse_members (Suc n) acc s \<noteq> Inl depth_error"
proof (cases s)
  case Nil
  then show ?thesis by simp
next
  case (Cons c cs)
  show ?thesis
  proof (cases "c = dquote")
    case False
    with Cons show ?thesis by simp
  next
    case q: True
    show ?thesis
    proof (cases "scan_string [] cs")
      case (Inl e)
      with Cons q scan_string_not_depth [of "[]" cs] show ?thesis by auto
    next
      case (Inr p)
      then obtain k r0 where ss: "scan_string [] cs = Inr (k, r0)" by (cases p) auto
      then have l0: "length r0 < length cs" using scan_string_suffix by blast
      show ?thesis
      proof (cases "skip_ws r0")
        case Nil
        with Cons q ss show ?thesis by simp
      next
        case sk: (Cons d r1)
        then have l1: "length r1 < length r0" by (rule skip_ws_Cons_length)
        show ?thesis
        proof (cases "d = CHR '':''")
          case False
          with Cons q ss sk show ?thesis by simp
        next
          case col: True
          from l0 l1 skip_ws_length [of r1] len Cons
          have lv: "2 * length (skip_ws r1) < n" by simp
          show ?thesis
          proof (cases "parse_value n (skip_ws r1)")
            case (Inl e)
            with IHv [OF lv] Cons q ss sk col show ?thesis by auto
          next
            case (Inr p2)
            then obtain x r2 where pv: "parse_value n (skip_ws r1) = Inr (x, r2)"
              by (cases p2) auto
            then have l2: "length r2 < length (skip_ws r1)" by (rule parse_value_shorter)
            show ?thesis
            proof (cases "skip_ws r2")
              case Nil
              with Cons q ss sk col pv show ?thesis by simp
            next
              case sk2: (Cons y r3)
              then have "length r3 < length r2" by (rule skip_ws_Cons_length)
              with l0 l1 l2 skip_ws_length [of r1] skip_ws_length [of r3] len Cons
              have "2 * length (skip_ws r3) + 1 < n" by simp
              from IHm [OF this] Cons q ss sk col pv sk2 show ?thesis by simp
            qed
          qed
        qed
      qed
    qed
  qed
qed

lemma fuel_enough:
  "(\<forall>s. 2 * length s < n \<longrightarrow> parse_value n s \<noteq> Inl depth_error)
   \<and> (\<forall>acc s. 2 * length s + 1 < n \<longrightarrow> parse_elems n acc s \<noteq> Inl depth_error)
   \<and> (\<forall>acc s. 2 * length s + 1 < n \<longrightarrow> parse_members n acc s \<noteq> Inl depth_error)"
proof (induction n)
  case 0
  show ?case by simp
next
  case (Suc n)
  have v: "parse_value (Suc n) s \<noteq> Inl depth_error" if "2 * length s < Suc n" for s
    by (rule parse_value_fuel_step [OF _ _ that]) (use Suc in blast)+
  have e: "parse_elems (Suc n) acc s \<noteq> Inl depth_error"
    if "2 * length s + 1 < Suc n" for acc s
    by (rule parse_elems_fuel_step [OF _ _ that]) (use Suc in blast)+
  have m: "parse_members (Suc n) acc s \<noteq> Inl depth_error"
    if "2 * length s + 1 < Suc n" for acc s
    by (rule parse_members_fuel_step [OF _ _ that]) (use Suc in blast)+
  from v e m show ?case by blast
qed

text \<open>The bound of \<open>json_loads\<close> is never used up.\<close>

lemma json_loads_bound_suffices: "json_loads s \<noteq> Inl depth_error"
proof -
  have "2 * length (skip_ws s) < Suc (length s + length s)"
    using skip_ws_length [of s] by simp
  with fuel_enough [of "Suc (length s + length s)"]
  have "parse_value (Suc (length s + length s)) (skip_ws s) \<noteq> Inl depth_error" by blast
  then show ?thesis
    by (auto simp: json_loads_def split: sum.splits prod.splits)
qed

section \<open>Properties of the reference encoder\<close>




lemma of_char_code_inj: "(of_char c :: nat) = of_char c' \<Longrightarrow> c = c'"
  by simp

lemma of_char_small: "(of_char c :: nat) < 256"
  by simp












section \<open>Properties of the response normalizer\<close>

lemma not_space_chars [simp]:
  "\<not> is_space (CHR ''{'')" "\<not> is_space (CHR ''}'')" "\<not> is_space (CHR 0x60)"
  "\<not> is_space (CHR ''j'')" "\<not> is_space (CHR ''J'')"
  by (simp_all add: is_space_def)

lemma ascii_lower_j: "ascii_lower c = CHR ''j'' \<Longrightarrow> c = CHR ''j'' \<or> c = CHR ''J''"
  by (simp add: ascii_lower_def split: if_splits)

lemma suffix_last: "suffix (xs @ [x]) s \<Longrightarrow> last s = x"
  by (auto simp: suffix_def)

lemma strip_fences_core:
  assumes "core = CHR ''{'' # cs" and "last core = CHR ''}''"
  shows "strip_fences core = core"
proof -
  have s: "strip core = core" using assms by (intro strip_id) auto
  have p: "\<not> prefix ''```'' core" using assms by simp
  have "\<not> suffix (''``'' @ [CHR 0x60]) core"
    using suffix_last [of "''``''" "CHR 0x60" core] assms by auto
  moreover have "\<not> suffix (''```'' @ [CHR 0x0A]) core"
    using suffix_last [of "''```''" "CHR 0x0A" core] assms by auto
  ultimately have t: "remove_trailing_fence core = core"
    by (simp add: remove_trailing_fence_def)
  from p have "remove_json_fence core = core" "remove_fence core = core"
    by (simp_all add: remove_json_fence_def remove_fence_def)
  with s t show ?thesis by (simp add: strip_fences_def)
qed

lemma strip_fences_fenced:
  assumes core: "core = CHR ''{'' # cs" "last core = CHR ''}''"
    and tag: "tag = [] \<or> map ascii_lower tag = ''json''"
    and ws: "all_space wa" "all_space wb"
  shows "strip_fences (''```'' @ tag @ wa @ core @ wb @ ''```'') = core"
proof -
  let ?rest = "core @ wb @ ''```''"
  let ?f = "''```'' @ tag @ wa @ ?rest"
  have rest_strip: "strip ?rest = ?rest"
    using core by (intro strip_id) auto
  have rest_nofence: "remove_fence ?rest = ?rest"
    using core by (simp add: remove_fence_def)
  have l: "lstrip (wa @ ?rest) = ?rest"
    using ws(1) core by (simp add: lstrip_spaces lstrip_id)
  have step12: "strip (remove_fence (strip (remove_json_fence ?f))) = ?rest"
  proof (cases "tag = []")
    case True
    have "map ascii_lower (take 4 (wa @ ?rest)) \<noteq> ''json''"
    proof
      assume j: "map ascii_lower (take 4 (wa @ ?rest)) = ''json''"
      show False
      proof (cases wa)
        case Nil
        with j core show False by (simp add: ascii_lower_def)
      next
        case (Cons x xs)
        with j have "ascii_lower x = CHR ''j''" by simp
        then have "x = CHR ''j'' \<or> x = CHR ''J''" by (rule ascii_lower_j)
        moreover from Cons ws(1) have "is_space x" by (simp add: all_space_def)
        ultimately show False by auto
      qed
    qed
    then have "remove_json_fence ?f = ?f"
      using True by (simp add: remove_json_fence_def)
    moreover have "strip ?f = ?f" by (intro strip_id) auto
    moreover have "remove_fence ?f = ?rest"
      using True l by (simp add: remove_fence_def)
    ultimately show ?thesis using rest_strip by simp
  next
    case False
    with tag have j: "map ascii_lower tag = ''json''" by simp
    then have "length (map ascii_lower tag) = length ''json''" by simp
    then have len: "length tag = 4" by simp
    then have "take 4 (tag @ wa @ ?rest) = tag" "drop 4 (tag @ wa @ ?rest) = wa @ ?rest"
      by simp_all
    then have "remove_json_fence ?f = ?rest"
      using j l by (simp add: remove_json_fence_def)
    then show ?thesis using rest_strip rest_nofence by simp
  qed
  have "remove_trailing_fence ?rest = rstrip (core @ wb)"
    by (simp add: remove_trailing_fence_def suffix_def)
  also have "\<dots> = rstrip core" by (rule rstrip_spaces [OF ws(2)])
  also have "\<dots> = core" using core by (intro rstrip_id') auto
  finally have "remove_trailing_fence ?rest = core" .
  moreover have "strip core = core" using core by (intro strip_id) auto
  ultimately show ?thesis using step12 by (simp add: strip_fences_def)
qed

lemma all_space_append: "all_space a \<Longrightarrow> all_space b \<Longrightarrow> all_space (a @ b)"
  by (simp add: all_space_def)

text \<open>
  Claim C2, as amended. On every text the normalizer returns a value and raises nothing.
  The value is what \<^verbatim>\<open>json.loads\<close> gives for the trimmed text without its fence
  markers, or what it gives for the span from the first opening brace to the last
  closing brace of that text, or else the mapping with the single key \<^verbatim>\<open>raw\<close>
  that holds that text. A parsed value is returned as it is: it need not be a mapping,
  and the keys of a mapping are not checked against the vocabulary.
\<close>

theorem safe_json_from_text_total:
  "\<exists>x. safe_json_from_text lib (PStr s) = Inr x
     \<and> (loads lib (strip_fences (strip s)) = Inr x
        \<or> (\<exists>m. brace_span (strip_fences (strip s)) = Some m \<and> loads lib m = Inr x)
        \<or> x = PDict [(''raw'', PStr (strip_fences (strip s)))])"
  by (cases s) (auto simp: safe_json_from_text_def py_or_def py_strip_def Let_def
      split: sum.splits option.splits)

theorem safe_json_from_text_total_witness:
  "brace_span (strip_fences (strip ''Sure! {\"style\": \"photo\"} ok'')) = Some ''{\"style\": \"photo\"}''
   \<and> loads cpython ''{\"style\": \"photo\"}'' = Inr (PDict [(''style'', PStr ''photo'')])
   \<and> (\<exists>x. safe_json_from_text cpython (PStr ''Sure! {\"style\": \"photo\"} ok'') = Inr x
          \<and> (loads cpython (strip_fences (strip ''Sure! {\"style\": \"photo\"} ok'')) = Inr x
             \<or> (\<exists>m. brace_span (strip_fences (strip ''Sure! {\"style\": \"photo\"} ok'')) = Some m
                    \<and> loads cpython m = Inr x)
             \<or> x = PDict [(''raw'', PStr (strip_fences (strip ''Sure! {\"style\": \"photo\"} ok'')))]))"
proof -
  have a: "brace_span (strip_fences (strip ''Sure! {\"style\": \"photo\"} ok''))
             = Some ''{\"style\": \"photo\"}''"
    by code_simp
  have b: "loads cpython ''{\"style\": \"photo\"}'' = Inr (PDict [(''style'', PStr ''photo'')])"
    by code_simp
  from a b safe_json_from_text_total [of cpython "''Sure! {\"style\": \"photo\"} ok''"]
  show ?thesis by blast
qed

text \<open>
  Claim C2 as stated fails: the text \<^verbatim>\<open>5\<close> is returned as the number 5, which is
  no mapping, and the object text \<^verbatim>\<open>{"mood": "calm"}\<close> as a mapping whose key is
  neither of the vocabulary nor \<^verbatim>\<open>raw\<close>.
\<close>

theorem normalizer_result_not_a_traitset:
  "safe_json_from_text cpython (PStr ''5'') = Inr (PInt 5)
   \<and> \<not> is_traitset (PInt 5)
   \<and> safe_json_from_text cpython (PStr ''{\"mood\": \"calm\"}'')
       = Inr (PDict [(''mood'', PStr ''calm'')])
   \<and> \<not> is_traitset (PDict [(''mood'', PStr ''calm'')])"
  by code_simp


lemma strip_fences_unfenced:
  assumes "\<not> prefix ''```'' (strip s)" and "\<not> suffix ''```'' (strip s)"
  shows "strip_fences (strip s) = strip s"
proof -
  have "\<not> suffix (''```'' @ [CHR 0x0A]) (strip s)"
  proof
    assume x: "suffix (''```'' @ [CHR 0x0A]) (strip s)"
    then have "last (strip s) = CHR 0x0A" by (rule suffix_last)
    moreover from x have "strip s \<noteq> []" by (auto simp: suffix_def)
    ultimately show False using strip_ends [of s] by (simp add: is_space_def)
  qed
  with assms show ?thesis
    by (simp add: strip_fences_def remove_json_fence_def remove_fence_def
        remove_trailing_fence_def strip_idem)
qed






text \<open>
  Claim C7. For a JSON object text \<open>t\<close> (trimmed, it runs from an opening brace to a
  closing brace, as every text does that the reference decoder reads as an object:
  lemma \<open>object_text_braced\<close>), the normalizer returns on \<open>t\<close> wrapped in a
  fenced block what it returns on \<open>t\<close> itself. The opening fence carries no tag or
  the tag \<^verbatim>\<open>json\<close> in any case, and whitespace may stand between the fences and
  the text. This holds whatever \<^verbatim>\<open>json.loads\<close> does.
\<close>

theorem fenced_same_as_direct:
  assumes "braced t"
    and "tag = [] \<or> map ascii_lower tag = ''json''"
    and "all_space w1" and "all_space w2"
  shows "safe_json_from_text lib (PStr (fenced tag w1 t w2)) = safe_json_from_text lib (PStr t)"
proof -
  from assms(1) obtain cs where core: "strip t = CHR ''{'' # cs" "last (strip t) = CHR ''}''"
    by (auto simp: braced_def split: list.splits)
  obtain a b where ab: "all_space a" "all_space b" "t = a @ strip t @ b"
    using strip_decomp by blast
  let ?f = "fenced tag w1 t w2"
  have f: "?f = ''```'' @ tag @ (w1 @ a) @ strip t @ (b @ w2) @ ''```''"
    using ab(3) by (simp add: fenced_def)
  have "strip ?f = ?f" by (intro strip_id) (auto simp: fenced_def)
  then have "strip_fences (strip ?f) = strip t"
    using strip_fences_fenced [OF core assms(2) all_space_append [OF assms(3) ab(1)]
        all_space_append [OF ab(2) assms(4)]] f by simp
  moreover have "strip_fences (strip t) = strip t"
    using strip_fences_core [OF core] .
  moreover have "?f \<noteq> []" "t \<noteq> []" using core by (auto simp: fenced_def strip_def lstrip_def rstrip_def)
  ultimately show ?thesis
    by (simp add: safe_json_from_text_def py_or_def py_strip_def)
qed

theorem fenced_same_as_direct_witness:
  "braced ''{\"style\": \"photo\"}''
   \<and> map ascii_lower ''JSON'' = ''json''
   \<and> all_space ''\<newline>''
   \<and> fenced ''JSON'' ''\<newline>'' ''{\"style\": \"photo\"}'' ''\<newline>''
       = ''```JSON\<newline>{\"style\": \"photo\"}\<newline>```''
   \<and> safe_json_from_text cpython (PStr ''{\"style\": \"photo\"}'')
       = Inr (PDict [(''style'', PStr ''photo'')])
   \<and> safe_json_from_text cpython (PStr ''```JSON\<newline>{\"style\": \"photo\"}\<newline>```'')
       = Inr (PDict [(''style'', PStr ''photo'')])"
proof -
  have a: "braced ''{\"style\": \"photo\"}''" by code_simp
  have b: "map ascii_lower ''JSON'' = ''json''" by code_simp
  then have b': "''JSON'' = [] \<or> map ascii_lower ''JSON'' = ''json''" by simp
  have c: "all_space ''\<newline>''" by code_simp
  have d: "fenced ''JSON'' ''\<newline>'' ''{\"style\": \"photo\"}'' ''\<newline>''
             = ''```JSON\<newline>{\"style\": \"photo\"}\<newline>```''"
    by (simp add: fenced_def)
  have e: "safe_json_from_text cpython (PStr ''{\"style\": \"photo\"}'')
             = Inr (PDict [(''style'', PStr ''photo'')])"
    by code_simp
  from fenced_same_as_direct [OF a b' c c, of cpython] a b c d e show ?thesis by simp
qed

section \<open>Properties of the trait compactor\<close>

lemma concat_singletons:
  "concat (map (\<lambda>k. if P k then [g k] else []) ks) = map g (filter P ks)"
  by (induction ks) simp_all

lemma parts_of_present:
  "parts_of lib d =
     map (\<lambda>k. spaced k @ '': '' @ (case map_of d k of Some x \<Rightarrow> py_str lib x | None \<Rightarrow> []))
         (present_keys lib d)"
proof -
  have "(\<lambda>k. case map_of d k of
               Some x \<Rightarrow> if truthy lib x then [segment lib k x] else []
             | None \<Rightarrow> [])
        = (\<lambda>k. if (case map_of d k of Some x \<Rightarrow> truthy lib x | None \<Rightarrow> False)
                then [spaced k @ '': '' @ (case map_of d k of Some x \<Rightarrow> py_str lib x | None \<Rightarrow> [])]
                else [])"
    by (rule ext) (simp add: segment_def split: option.splits)
  then show ?thesis
    unfolding parts_of_def present_keys_def by (simp only: concat_singletons)
qed

lemma compact_line_not_fallback:
  assumes "\<not> is_fallback d"
  shows "traits_to_compact_line lib (PDict d) =
           (if present_keys lib d \<noteq> [] then PStr (spec_line lib d)
            else PStr (dumps lib False (PDict d)))"
proof -
  have "spec_line lib d = join ''; '' (parts_of lib d)"
    by (simp add: spec_line_def parts_of_present)
  moreover have "parts_of lib d = [] \<longleftrightarrow> present_keys lib d = []"
    by (simp add: parts_of_present)
  ultimately show ?thesis
    using assms
    by (auto simp: traits_to_compact_line_def is_fallback_def Let_def
        split: option.splits bool.splits)
qed

lemma same_pairs_same_dict:
  assumes "distinct (map fst d)" and "distinct (map fst d')" and "set d' = set d"
  shows "map_of d' = map_of d" and "length d' = length d"
proof -
  show "map_of d' = map_of d"
    using assms by (simp add: map_of_inject_set)
  from assms have "distinct d" "distinct d'" by (auto simp: distinct_map)
  then have "card (set d) = length d" "card (set d') = length d'"
    by (simp_all add: distinct_card)
  with assms(3) show "length d' = length d" by simp
qed

text \<open>
  Claim C5, as amended. For a mapping that is not in fallback form and in which at
  least one key of the vocabulary has a non-empty value, the compact line is made of one
  segment \<^verbatim>\<open><key with spaces for underscores>: <value>\<close> for each key of the
  vocabulary that is present with a non-empty value, in the canonical order, joined with
  \<^verbatim>\<open>"; "\<close>; the keys with an empty value are left out. The line does not depend on
  the insertion order: two mappings with the same key-value pairs give the same line.
\<close>

theorem compact_line_canonical:
  assumes "\<not> is_fallback d" and "present_keys lib d \<noteq> []"
  shows "traits_to_compact_line lib (PDict d) = PStr (spec_line lib d)
         \<and> (\<forall>d'. distinct (map fst d) \<and> distinct (map fst d') \<and> set d' = set d
               \<longrightarrow> traits_to_compact_line lib (PDict d') = PStr (spec_line lib d))"
proof (intro conjI allI impI)
  show "traits_to_compact_line lib (PDict d) = PStr (spec_line lib d)"
    using assms by (simp add: compact_line_not_fallback)
next
  fix d'
  assume h: "distinct (map fst d) \<and> distinct (map fst d') \<and> set d' = set d"
  then have m: "map_of d' = map_of d" and l: "length d' = length d"
    using same_pairs_same_dict [of d d'] by auto
  from m l assms(1) have "\<not> is_fallback d'" by (simp add: is_fallback_def)
  moreover from m have "present_keys lib d' = present_keys lib d"
    by (simp add: present_keys_def)
  moreover from m have "spec_line lib d' = spec_line lib d"
    by (simp add: spec_line_def present_keys_def)
  ultimately show "traits_to_compact_line lib (PDict d') = PStr (spec_line lib d)"
    using assms(2) by (simp add: compact_line_not_fallback)
qed

theorem compact_line_canonical_witness:
  "\<not> is_fallback [(''style'', PStr ''photo''), (''lighting'', PStr []), (''mood'', PStr ''calm''),
                     (''primary_subject'', PStr ''cat'')]
   \<and> present_keys cpython [(''style'', PStr ''photo''), (''lighting'', PStr []),
                            (''mood'', PStr ''calm''), (''primary_subject'', PStr ''cat'')]
       = [''primary_subject'', ''style'']
   \<and> spec_line cpython [(''style'', PStr ''photo''), (''lighting'', PStr []),
                         (''mood'', PStr ''calm''), (''primary_subject'', PStr ''cat'')]
       = ''primary subject: cat; style: photo''
   \<and> traits_to_compact_line cpython
        (PDict [(''style'', PStr ''photo''), (''lighting'', PStr []), (''mood'', PStr ''calm''),
                (''primary_subject'', PStr ''cat'')])
       = PStr ''primary subject: cat; style: photo''
   \<and> traits_to_compact_line cpython
        (PDict [(''primary_subject'', PStr ''cat''), (''mood'', PStr ''calm''),
                (''lighting'', PStr []), (''style'', PStr ''photo'')])
       = PStr ''primary subject: cat; style: photo''"
proof -
  let ?d = "[(''style'', PStr ''photo''), (''lighting'', PStr []), (''mood'', PStr ''calm''),
             (''primary_subject'', PStr ''cat'')]"
  let ?d' = "[(''primary_subject'', PStr ''cat''), (''mood'', PStr ''calm''),
              (''lighting'', PStr []), (''style'', PStr ''photo'')]"
  have a: "\<not> is_fallback ?d" by code_simp
  have b: "present_keys cpython ?d = [''primary_subject'', ''style'']" by code_simp
  then have b': "present_keys cpython ?d \<noteq> []" by simp
  have c: "spec_line cpython ?d = ''primary subject: cat; style: photo''" by code_simp
  have d: "distinct (map fst ?d) \<and> distinct (map fst ?d') \<and> set ?d' = set ?d" by auto
  from compact_line_canonical [OF a b'] have
    "traits_to_compact_line cpython (PDict ?d) = PStr (spec_line cpython ?d)"
    "distinct (map fst ?d) \<and> distinct (map fst ?d') \<and> set ?d' = set ?d
       \<longrightarrow> traits_to_compact_line cpython (PDict ?d') = PStr (spec_line cpython ?d)"
    by blast+
  with a b c d show ?thesis by simp
qed

text \<open>
  Claim C5 as stated fails on a mapping of the vocabulary in which no key has a
  non-empty value: no segment is due, so the line of the claim is empty, and the
  compactor returns the serialization of the mapping.
\<close>

theorem compact_line_without_segments:
  "\<not> is_fallback [(''style'', PStr [])]
   \<and> is_traitset (PDict [(''style'', PStr [])])
   \<and> spec_line cpython [(''style'', PStr [])] = []
   \<and> traits_to_compact_line cpython (PDict [(''style'', PStr [])]) = PStr ''{\"style\": \"\"}''
   \<and> traits_to_compact_line cpython (PDict [(''style'', PStr [])])
       \<noteq> PStr (spec_line cpython [(''style'', PStr [])])"
  by code_simp




section \<open>Properties of the storing stage\<close>








lemma store_image_bytes_write_raises:
  assumes "\<not> use_s3 v" and "getenv w ''PIPELINES_STATIC_DIR'' = None"
    and "makedirs w tr ''/app/static/morphs'' = None"
    and "write_file w (tr @ [MakeDirs ''/app/static/morphs''])
           (path_join ''/app/static/morphs'' filename) image_data = Some e"
  shows "store_image_bytes w v tr image_data filename
         = (tr @ [MakeDirs ''/app/static/morphs'',
                  WriteFile (path_join ''/app/static/morphs'' filename) image_data], Inl e)"
proof -
  have "path_join ''/app/static'' ''morphs'' = ''/app/static/morphs''"
    by code_simp
  with assms show ?thesis by (simp add: store_image_bytes_def Let_def)
qed







end
